theory Spec2Isabelle
  imports Main "HOL-Library.Sublist" "HOL-Library.Multiset"
begin

section \<open>Python strings\<close>

text \<open>
  Python \<^verbatim>\<open>str\<close> values are modelled as \<^typ>\<open>string\<close> (lists of 8-bit characters);
  the embedding covers ASCII text. The helpers below are the \<^verbatim>\<open>str\<close> methods the
  scrapers call: \<^verbatim>\<open>lower\<close>, \<^verbatim>\<open>endswith\<close>, \<^verbatim>\<open>startswith\<close>, \<^verbatim>\<open>in\<close>, \<^verbatim>\<open>strip\<close>,
  \<^verbatim>\<open>split\<close>.
\<close>

definition lower_char :: "char \<Rightarrow> char" where
  "lower_char c =
     (case map_of (zip ''ABCDEFGHIJKLMNOPQRSTUVWXYZ'' ''abcdefghijklmnopqrstuvwxyz'') c of
        Some d \<Rightarrow> d
      | None \<Rightarrow> c)"

definition lower :: "string \<Rightarrow> string" where
  "lower s = map lower_char s"

definition endswith :: "string \<Rightarrow> string \<Rightarrow> bool" where
  "endswith s suf = (length suf \<le> length s \<and> drop (length s - length suf) s = suf)"

definition startswith :: "string \<Rightarrow> string \<Rightarrow> bool" where
  "startswith s pre = (take (length pre) s = pre)"

text \<open>\<^verbatim>\<open>pattern in s\<close>: substring test.\<close>

fun contains :: "string \<Rightarrow> string \<Rightarrow> bool" where
  "contains [] pat = (pat = [])"
| "contains (c # cs) pat = (startswith (c # cs) pat \<or> contains cs pat)"

text \<open>\<^verbatim>\<open>s.split(sep)[0]\<close> for a one-character separator: the text before its first
  occurrence (all of \<open>s\<close> when there is none).\<close>

definition split_first :: "char \<Rightarrow> string \<Rightarrow> string" where
  "split_first sep s = takeWhile (\<lambda>c. c \<noteq> sep) s"

section \<open>URL classification and normalisation\<close>

text \<open>
  \<^verbatim>\<open>self.document_extensions\<close>, the same list in \<^verbatim>\<open>web_scrapper.py\<close> and in the
  WordPress scrapers.
\<close>

definition document_extensions :: "string list" where
  "document_extensions =
     [''.pdf'', ''.doc'', ''.docx'', ''.xls'', ''.xlsx'', ''.ppt'', ''.pptx'',
      ''.csv'', ''.txt'', ''.rtf'', ''.zip'', ''.rar'', ''.mp3'', ''.mp4'', ''.odt'']"

text \<open>\<^verbatim>\<open>is_document\<close>: \<^verbatim>\<open>any(url.lower().endswith(ext) for ext in self.document_extensions)\<close>.\<close>

definition is_document :: "string \<Rightarrow> bool" where
  "is_document url = list_ex (\<lambda>ext. endswith (lower url) ext) document_extensions"

text \<open>
  The normalisation that \<^verbatim>\<open>extract_urls\<close> applies in line to every resolved link
  (\<^verbatim>\<open>web_scrapper.py\<close> lines 175-184, \<^verbatim>\<open>new_rag_wordpress_scrapper.py\<close> lines 259-268):
  \<^verbatim>\<open>full_url = full_url.split('#')[0]\<close>, then
  \<^verbatim>\<open>if not self.is_document(full_url) and full_url.endswith('/'): full_url = full_url[:-1]\<close>.
\<close>

definition normalize_url :: "string \<Rightarrow> string" where
  "normalize_url full_url =
     (let u = split_first (CHR ''#'') full_url
      in if \<not> is_document u \<and> endswith u ''/'' then butlast u else u)"

section \<open>The URL library\<close>

text \<open>
  \<^verbatim>\<open>urllib.parse.urlparse\<close> and \<^verbatim>\<open>urllib.parse.urljoin\<close> of the Python standard library
  (CPython 3.11), which every scraper imports, written out for ASCII URLs. The
  \<^verbatim>\<open>ValueError\<close> that \<^verbatim>\<open>urlsplit\<close> raises for a network location with unbalanced
  square brackets is not part of the model: on such a link the scrapers stop with that
  exception, the model goes on with the parts as split.
\<close>

record parse_result =
  url_scheme :: string
  url_netloc :: string
  url_path :: string
  url_params :: string
  url_query :: string
  url_fragment :: string

definition scheme_chars :: string where
  "scheme_chars = ''abcdefghijklmnopqrstuvwxyzABCDEFGHIJKLMNOPQRSTUVWXYZ0123456789+-.''"

definition ascii_letters :: string where
  "ascii_letters = ''abcdefghijklmnopqrstuvwxyzABCDEFGHIJKLMNOPQRSTUVWXYZ''"

definition uses_relative :: "string list" where
  "uses_relative = [[], ''ftp'', ''http'', ''gopher'', ''nntp'', ''imap'', ''wais'', ''file'',
     ''https'', ''shttp'', ''mms'', ''prospero'', ''rtsp'', ''rtsps'', ''rtspu'', ''sftp'',
     ''svn'', ''svn+ssh'', ''ws'', ''wss'']"

definition uses_netloc :: "string list" where
  "uses_netloc = [[], ''ftp'', ''http'', ''gopher'', ''nntp'', ''telnet'', ''imap'', ''wais'',
     ''file'', ''mms'', ''https'', ''shttp'', ''snews'', ''prospero'', ''rtsp'', ''rtsps'',
     ''rtspu'', ''rsync'', ''svn'', ''svn+ssh'', ''sftp'', ''nfs'', ''git'', ''git+ssh'',
     ''ws'', ''wss'']"

definition uses_params :: "string list" where
  "uses_params = [[], ''ftp'', ''hdl'', ''prospero'', ''http'', ''imap'', ''https'', ''shttp'',
     ''rtsp'', ''rtsps'', ''rtspu'', ''sip'', ''sips'', ''mms'', ''sftp'', ''tel'']"

text \<open>\<^verbatim>\<open>s.split(sep, 1)\<close> when \<open>sep\<close> occurs in \<open>s\<close>: the text before and after its first
  occurrence.\<close>

definition split_once :: "char \<Rightarrow> string \<Rightarrow> string \<times> string" where
  "split_once sep s = (takeWhile (\<lambda>c. c \<noteq> sep) s, tl (dropWhile (\<lambda>c. c \<noteq> sep) s))"

text \<open>The text after the last \<open>sep\<close> (all of \<open>s\<close> when there is none): \<^verbatim>\<open>s[s.rfind(sep)+1:]\<close>.\<close>

definition after_last :: "char \<Rightarrow> string \<Rightarrow> string" where
  "after_last sep s = rev (takeWhile (\<lambda>c. c \<noteq> sep) (rev s))"

text \<open>Characters up to the space, \<^verbatim>\<open>_WHATWG_C0_CONTROL_OR_SPACE\<close>, and the three that
  \<^verbatim>\<open>_UNSAFE_URL_BYTES_TO_REMOVE\<close> lists.\<close>

definition c0_or_space :: "char \<Rightarrow> bool" where
  "c0_or_space c = ((of_char c :: nat) \<le> 32)"

definition unsafe_url_byte :: "char \<Rightarrow> bool" where
  "unsafe_url_byte c = (c \<in> set [CHR 0x09, CHR 0x0D, CHR 0x0A])"

text \<open>\<^verbatim>\<open>urlsplit\<close>: leading control characters and spaces are stripped, tabs and line
  breaks removed; then the scheme, the network location, the fragment and the query are
  cut off in this order.\<close>

definition urlsplit :: "string \<Rightarrow> string \<Rightarrow> parse_result" where
  "urlsplit url0 default_scheme =
     (let url2 = filter (\<lambda>c. \<not> unsafe_url_byte c) (dropWhile c0_or_space url0);
          scheme0 = filter (\<lambda>c. \<not> unsafe_url_byte c)
                      (rev (dropWhile c0_or_space (rev (dropWhile c0_or_space default_scheme))));
          head = takeWhile (\<lambda>c. c \<noteq> CHR '':'') url2;
          has_scheme = (CHR '':'' \<in> set url2 \<and> head \<noteq> [] \<and> hd head \<in> set ascii_letters
                          \<and> list_all (\<lambda>c. c \<in> set scheme_chars) head);
          scheme = (if has_scheme then lower head else scheme0);
          url3 = (if has_scheme then snd (split_once (CHR '':'') url2) else url2);
          delim = (\<lambda>c. c \<in> set ''/?#'');
          has_netloc = (take 2 url3 = ''//'');
          netloc = (if has_netloc then takeWhile (\<lambda>c. \<not> delim c) (drop 2 url3) else []);
          url4 = (if has_netloc then dropWhile (\<lambda>c. \<not> delim c) (drop 2 url3) else url3);
          fragment = (if CHR ''#'' \<in> set url4 then snd (split_once (CHR ''#'') url4) else []);
          url5 = (if CHR ''#'' \<in> set url4 then fst (split_once (CHR ''#'') url4) else url4);
          query = (if CHR ''?'' \<in> set url5 then snd (split_once (CHR ''?'') url5) else []);
          url6 = (if CHR ''?'' \<in> set url5 then fst (split_once (CHR ''?'') url5) else url5)
      in \<lparr>url_scheme = scheme, url_netloc = netloc, url_path = url6, url_params = [],
           url_query = query, url_fragment = fragment\<rparr>)"

text \<open>\<^verbatim>\<open>_splitparams\<close>: the parameters start at the first \<open>;\<close> of the last path segment.\<close>

definition splitparams :: "string \<Rightarrow> string \<times> string" where
  "splitparams url =
     (let seg = after_last (CHR ''/'') url;
          front = take (length url - length seg) url
      in if CHR '';'' \<in> set seg
         then (front @ fst (split_once (CHR '';'') seg), snd (split_once (CHR '';'') seg))
         else (url, []))"

text \<open>\<^verbatim>\<open>urlparse(url, scheme)\<close>; the scrapers call it with the default scheme \<^verbatim>\<open>''\<close>,
  \<^verbatim>\<open>urljoin\<close> with the scheme of the base.\<close>

definition urlparse_with :: "string \<Rightarrow> string \<Rightarrow> parse_result" where
  "urlparse_with url default_scheme =
     (let r = urlsplit url default_scheme
      in if url_scheme r \<in> set uses_params \<and> CHR '';'' \<in> set (url_path r)
         then r\<lparr>url_path := fst (splitparams (url_path r)),
                url_params := snd (splitparams (url_path r))\<rparr>
         else r)"

definition urlparse :: "string \<Rightarrow> parse_result" where
  "urlparse url = urlparse_with url []"

definition urlunsplit :: "string \<Rightarrow> string \<Rightarrow> string \<Rightarrow> string \<Rightarrow> string \<Rightarrow> string" where
  "urlunsplit scheme netloc url query fragment =
     (let url1 = (if netloc \<noteq> [] \<or> (scheme \<noteq> [] \<and> scheme \<in> set uses_netloc) \<or> take 2 url = ''//''
                  then ''//'' @ netloc @ (if url \<noteq> [] \<and> take 1 url \<noteq> ''/'' then ''/'' @ url else url)
                  else url);
          url2 = (if scheme \<noteq> [] then scheme @ '':'' @ url1 else url1);
          url3 = (if query \<noteq> [] then url2 @ ''?'' @ query else url2)
      in if fragment \<noteq> [] then url3 @ ''#'' @ fragment else url3)"

definition urlunparse :: "parse_result \<Rightarrow> string" where
  "urlunparse r =
     urlunsplit (url_scheme r) (url_netloc r)
       (if url_params r \<noteq> [] then url_path r @ '';'' @ url_params r else url_path r)
       (url_query r) (url_fragment r)"

text \<open>\<^verbatim>\<open>s.split(sep)\<close> and \<^verbatim>\<open>sep.join(parts)\<close> for a one-character separator.\<close>

fun split_on :: "char \<Rightarrow> string \<Rightarrow> string list" where
  "split_on sep [] = [[]]"
| "split_on sep (c # cs) =
     (if c = sep then [] # split_on sep cs
      else (case split_on sep cs of p # ps \<Rightarrow> (c # p) # ps | [] \<Rightarrow> [[c]]))"

fun join_with :: "string \<Rightarrow> string list \<Rightarrow> string" where
  "join_with sep [] = []"
| "join_with sep [p] = p"
| "join_with sep (p # q # ps) = p @ sep @ join_with sep (q # ps)"

text \<open>The path resolution of \<^verbatim>\<open>urljoin\<close>: \<^verbatim>\<open>segments[1:-1] = filter(None, segments[1:-1])\<close>,
  then the loop that drops \<open>.\<close> and resolves \<open>..\<close>.\<close>

definition filter_middle :: "string list \<Rightarrow> string list" where
  "filter_middle segs =
     (case segs of
        [] \<Rightarrow> []
      | x # rest \<Rightarrow>
          (if rest = [] then [x] else x # filter (\<lambda>p. p \<noteq> []) (butlast rest) @ [last rest]))"

fun resolve_segments :: "string list \<Rightarrow> string list \<Rightarrow> string list" where
  "resolve_segments resolved [] = resolved"
| "resolve_segments resolved (seg # segs) =
     (if seg = ''..'' then resolve_segments (butlast resolved) segs
      else if seg = ''.'' then resolve_segments resolved segs
      else resolve_segments (resolved @ [seg]) segs)"

definition urljoin :: "string \<Rightarrow> string \<Rightarrow> string" where
  "urljoin base url =
     (if base = [] then url
      else if url = [] then base
      else
        let b = urlparse base;
            r = urlparse_with url (url_scheme b)
        in if url_scheme r \<noteq> url_scheme b \<or> url_scheme r \<notin> set uses_relative then url
           else if url_scheme r \<in> set uses_netloc \<and> url_netloc r \<noteq> [] then urlunparse r
           else
             let netloc = (if url_scheme r \<in> set uses_netloc then url_netloc b else url_netloc r)
             in if url_path r = [] \<and> url_params r = []
                then urlunparse (r\<lparr>url_netloc := netloc, url_path := url_path b,
                       url_params := url_params b,
                       url_query := (if url_query r = [] then url_query b else url_query r)\<rparr>)
                else
                  let base_parts0 = split_on (CHR ''/'') (url_path b);
                      base_parts = (if last base_parts0 \<noteq> [] then butlast base_parts0 else base_parts0);
                      segments = (if take 1 (url_path r) = ''/'' then split_on (CHR ''/'') (url_path r)
                                  else filter_middle (base_parts @ split_on (CHR ''/'') (url_path r)));
                      resolved0 = resolve_segments [] segments;
                      resolved = (if last segments \<in> set [''.'', ''..''] then resolved0 @ [[]] else resolved0);
                      joined = join_with ''/'' resolved
                  in urlunparse (r\<lparr>url_netloc := netloc,
                       url_path := (if joined = [] then ''/'' else joined)\<rparr>))"

section \<open>The file-name functions of \<^verbatim>\<open>os.path\<close>\<close>

text \<open>\<^verbatim>\<open>posixpath.basename\<close>, \<^verbatim>\<open>posixpath.join\<close> on two parts and \<^verbatim>\<open>posixpath.splitext\<close>
  (which never splits at the leading dots of the last component).\<close>

definition basename :: "string \<Rightarrow> string" where
  "basename p = after_last (CHR ''/'') p"

definition path_join :: "string \<Rightarrow> string \<Rightarrow> string" where
  "path_join a b =
     (if startswith b ''/'' \<and> b \<noteq> [] then b
      else if a = [] \<or> endswith a ''/'' then a @ b
      else a @ ''/'' @ b)"

definition splitext :: "string \<Rightarrow> string \<times> string" where
  "splitext p =
     (let name = after_last (CHR ''/'') p;
          ext = after_last (CHR ''.'') name;
          stem = take (length name - length ext - 1) name
      in if CHR ''.'' \<in> set name \<and> list_ex (\<lambda>c. c \<noteq> CHR ''.'') stem
         then (take (length p - length ext - 1) p, CHR ''.'' # ext)
         else (p, []))"

section \<open>More of Python's strings\<close>

text \<open>The ASCII characters that \<^verbatim>\<open>str.strip()\<close>, \<^verbatim>\<open>str.split()\<close> and the regular
  expression class \<^verbatim>\<open>\s\<close> treat as white space.\<close>

definition py_space :: "char \<Rightarrow> bool" where
  "py_space c =
     (c \<in> set [CHR 0x09, CHR 0x0A, CHR 0x0B, CHR 0x0C, CHR 0x0D,
                CHR 0x1C, CHR 0x1D, CHR 0x1E, CHR 0x1F, CHR 0x20])"

definition strip_chars :: "(char \<Rightarrow> bool) \<Rightarrow> string \<Rightarrow> string" where
  "strip_chars P s = rev (dropWhile P (rev (dropWhile P s)))"

definition strip :: "string \<Rightarrow> string" where
  "strip s = strip_chars py_space s"

text \<open>\<^verbatim>\<open>s.split()\<close>: the maximal runs of characters that are not white space.\<close>

fun split_ws_acc :: "string \<Rightarrow> string \<Rightarrow> string list" where
  "split_ws_acc cur [] = (if cur = [] then [] else [cur])"
| "split_ws_acc cur (c # cs) =
     (if py_space c then (if cur = [] then split_ws_acc [] cs else cur # split_ws_acc [] cs)
      else split_ws_acc (cur @ [c]) cs)"

definition split_ws :: "string \<Rightarrow> string list" where
  "split_ws s = split_ws_acc [] s"

text \<open>\<^verbatim>\<open>str(n)\<close> for a natural number: its decimal digits.\<close>

definition digit_char :: "nat \<Rightarrow> char" where
  "digit_char d = ''0123456789'' ! d"

fun str_nat :: "nat \<Rightarrow> string" where
  "str_nat n = (if n < 10 then [digit_char n] else str_nat (n div 10) @ [digit_char (n mod 10)])"

declare str_nat.simps [simp del]

text \<open>\<^verbatim>\<open>max(xs, key=key)\<close> on a list that is not empty: the first element whose key is
  the greatest (a later element replaces the best one only if its key is larger).\<close>

fun max_from :: "('a \<Rightarrow> nat) \<Rightarrow> 'a \<Rightarrow> 'a list \<Rightarrow> 'a" where
  "max_from key best [] = best"
| "max_from key best (x # xs) = max_from key (if key best < key x then x else best) xs"

definition py_max :: "('a \<Rightarrow> nat) \<Rightarrow> 'a list \<Rightarrow> 'a option" where
  "py_max key xs = (case xs of [] \<Rightarrow> None | x # rest \<Rightarrow> Some (max_from key x rest))"

section \<open>The parsed document\<close>

text \<open>
  What \<^verbatim>\<open>BeautifulSoup(html_content, 'html.parser')\<close> returns: a tree of tags (name,
  attributes, children) and text nodes. The parser itself belongs to the \<^verbatim>\<open>bs4\<close>
  library; functions that parse take it through the \<open>world\<close> record below. The soup
  object is the tag named \<^verbatim>\<open>[document]\<close>. Attribute values are strings; the \<^verbatim>\<open>class\<close>
  attribute is split at white space where a selector looks at it, as \<^verbatim>\<open>bs4\<close> does.
\<close>

datatype node =
    Tag (tag_name: string) (attrs: "(string \<times> string) list") (contents: "node list")
  | Text string

fun is_tag :: "node \<Rightarrow> bool" where
  "is_tag (Tag name as cs) = True"
| "is_tag (Text s) = False"

text \<open>\<^verbatim>\<open>.descendants\<close>: every node below a node, in document order.\<close>

fun descendants :: "node \<Rightarrow> node list" where
  "descendants (Tag name as cs) = concat (map (\<lambda>c. c # descendants c) cs)"
| "descendants (Text s) = []"

text \<open>\<^verbatim>\<open>get_text(strip=True)\<close>: the stripped text nodes below a tag that are not empty,
  concatenated.\<close>

fun stripped_strings :: "node list \<Rightarrow> string list" where
  "stripped_strings [] = []"
| "stripped_strings (Tag name as cs # ns) = stripped_strings ns"
| "stripped_strings (Text s # ns) =
     (if strip s = [] then stripped_strings ns else strip s # stripped_strings ns)"

definition get_text :: "node \<Rightarrow> string" where
  "get_text n = concat (stripped_strings (descendants n))"

text \<open>\<^verbatim>\<open>.string\<close>: the text of a node with exactly one child, followed down through
  single children; \<^verbatim>\<open>None\<close> otherwise.\<close>

fun node_string :: "node \<Rightarrow> string option" where
  "node_string (Text s) = Some s"
| "node_string (Tag name as cs) = (case cs of [c] \<Rightarrow> node_string c | _ \<Rightarrow> None)"

text \<open>\<^verbatim>\<open>find_all\<close> by a list of tag names, \<^verbatim>\<open>find_all(name, attr=True)\<close>, \<^verbatim>\<open>find\<close>.\<close>

definition named :: "string list \<Rightarrow> node \<Rightarrow> bool" where
  "named names n = (is_tag n \<and> tag_name n \<in> set names)"

definition find_all :: "node \<Rightarrow> string list \<Rightarrow> node list" where
  "find_all n names = filter (named names) (descendants n)"

definition has_attr :: "string \<Rightarrow> node \<Rightarrow> bool" where
  "has_attr key n = (is_tag n \<and> map_of (attrs n) key \<noteq> None)"

definition find_all_with :: "node \<Rightarrow> string \<Rightarrow> string \<Rightarrow> node list" where
  "find_all_with n name key = filter (has_attr key) (find_all n [name])"

definition find_first :: "node \<Rightarrow> string \<Rightarrow> node option" where
  "find_first n name = (case find_all n [name] of [] \<Rightarrow> None | x # xs \<Rightarrow> Some x)"

text \<open>
  \<^verbatim>\<open>soup.select(selector)\<close> for the selectors the scraper uses: a tag name, \<^verbatim>\<open>.class\<close>
  or \<^verbatim>\<open>#id\<close>.
\<close>

definition class_tokens :: "node \<Rightarrow> string list" where
  "class_tokens n = (case map_of (attrs n) ''class'' of None \<Rightarrow> [] | Some v \<Rightarrow> split_ws v)"

definition matches_selector :: "string \<Rightarrow> node \<Rightarrow> bool" where
  "matches_selector sel n =
     (is_tag n \<and>
      (case sel of
         [] \<Rightarrow> False
       | c # rest \<Rightarrow>
           if c = CHR ''.'' then rest \<in> set (class_tokens n)
           else if c = CHR ''#'' then map_of (attrs n) ''id'' = Some rest
           else tag_name n = sel))"

definition select :: "node \<Rightarrow> string \<Rightarrow> node list" where
  "select n sel = filter (matches_selector sel) (descendants n)"

text \<open>\<^verbatim>\<open>element.decompose()\<close> for every element of a result list: each node that the
  search found leaves the tree with all that is below it.\<close>

fun remove_nodes :: "(node \<Rightarrow> bool) \<Rightarrow> node \<Rightarrow> node" where
  "remove_nodes P (Tag name as cs) = Tag name as (map (remove_nodes P) (filter (\<lambda>c. \<not> P c) cs))"
| "remove_nodes P (Text s) = Text s"

section \<open>The scraper object and its surroundings\<close>

text \<open>
  \<^verbatim>\<open>WordPressScraper\<close> of \<^verbatim>\<open>rag_enahnced/new_rag_wordpress_scrapper.py\<close>. The fields are
  those \<^verbatim>\<open>__init__\<close> sets (the delay and the TLS flag, which no function below reads,
  are left out; \<^verbatim>\<open>document_extensions\<close> is the constant above); \<^verbatim>\<open>content_index\<close> is its
  two lists.
\<close>

record doc_info =
  doc_url :: string
  doc_file_path :: string
  doc_title :: string
  doc_content_type :: string
  doc_size_bytes :: nat

record scraper =
  start_url :: string
  output_folder :: string
  docs_folder :: string
  base_url :: string
  visited_urls :: "string set"
  found_urls :: "string set"
  downloaded_docs :: "doc_info list"
  nav_selectors :: "string list"
  footer_selectors :: "string list"
  index_pages :: "(string \<times> string \<times> string) list"
  index_documents :: "doc_info list"

definition init_scraper :: "string \<Rightarrow> string \<Rightarrow> string \<Rightarrow> scraper" where
  "init_scraper start output docs =
     \<lparr>start_url = start, output_folder = output, docs_folder = docs,
      base_url = url_scheme (urlparse start) @ ''://'' @ url_netloc (urlparse start),
      visited_urls = {}, found_urls = {start}, downloaded_docs = [],
      nav_selectors =
        [''nav'', ''header'', ''.nav'', ''.navbar'', ''.navigation'', ''#nav'', ''#navbar'',
         ''.menu'', ''#menu'', ''.header'', ''#header'', ''.site-header'', ''#site-header'',
         ''.main-navigation'', ''#main-navigation'', ''.primary-menu'', ''#primary-menu''],
      footer_selectors =
        [''footer'', ''.footer'', ''#footer'', ''.site-footer'', ''#site-footer'',
         ''.bottom'', ''#bottom'', ''.site-info'', ''#site-info'', ''.copyright'',
         ''#copyright'', ''.widget-area'', ''#widget-area'', ''.sidebar'', ''#sidebar''],
      index_pages = [], index_documents = []\<rparr>"

text \<open>An HTTP response as \<^verbatim>\<open>download_document\<close> reads it. Header names are matched
  without regard to case, as the HTTP clients do.\<close>

record response =
  resp_status :: nat
  resp_headers :: "(string \<times> string) list"
  resp_body :: string

definition header :: "response \<Rightarrow> string \<Rightarrow> string option" where
  "header r name = map_of (map (\<lambda>(k, v). (lower k, v)) (resp_headers r)) (lower name)"

text \<open>
  What the scraper gets from outside the repository: the HTML parser, the rendered
  page of a URL (\<^verbatim>\<open>get_page_content\<close>, \<open>None\<close> when both attempts fail), the response
  to a document request (\<open>None\<close> when the request raises), \<^verbatim>\<open>mimetypes.guess_extension\<close>
  and \<^verbatim>\<open>os.path.abspath\<close>.
\<close>

record world =
  parse_html :: "string \<Rightarrow> node"
  get_page_content :: "string \<Rightarrow> string option"
  fetch_document :: "string \<Rightarrow> response option"
  guess_extension :: "string \<Rightarrow> string option"
  abspath :: "string \<Rightarrow> string"

section \<open>URL validation and file names\<close>

text \<open>\<^verbatim>\<open>is_valid_url\<close>, lines 78-100.\<close>

definition is_valid_url :: "scraper \<Rightarrow> string \<Rightarrow> bool" where
  "is_valid_url s url =
     (if url = [] then False
      else if url_netloc (urlparse url) \<noteq> []
              \<and> url_netloc (urlparse url) \<noteq> url_netloc (urlparse (base_url s)) then False
      else if list_ex (\<lambda>ext. endswith (lower url) ext) [''.css'', ''.js''] then False
      else if list_ex (\<lambda>pattern. contains url pattern)
                [''wp-admin'', ''wp-login'', ''feed'', ''comment'', ''?s='', ''wp-json''] then False
      else True)"

text \<open>The characters the regular expression class \<^verbatim>\<open>\w\<close> matches in ASCII text.\<close>

definition word_char :: "char \<Rightarrow> bool" where
  "word_char c =
     (c \<in> set ''abcdefghijklmnopqrstuvwxyzABCDEFGHIJKLMNOPQRSTUVWXYZ0123456789_'')"

text \<open>\<^verbatim>\<open>get_clean_filename\<close>, lines 106-118; the substitution is
  \<^verbatim>\<open>re.sub(r'[^\w\-_\.]', '_', path)\<close>.\<close>

definition get_clean_filename :: "string \<Rightarrow> string" where
  "get_clean_filename url =
     (let path0 = strip_chars (\<lambda>c. c = CHR ''/'') (url_path (urlparse url));
          path1 = (if path0 = [] then ''homepage''
                   else map (\<lambda>c. if c = CHR ''/'' then CHR ''_'' else c) path0)
      in map (\<lambda>c. if word_char c \<or> c \<in> set ''-_.'' then c else CHR ''_'') path1)"

section \<open>Link discovery\<close>

text \<open>
  \<^verbatim>\<open>extract_urls\<close>, lines 244-271. \<open>add_link\<close> is the body of its loop for one \<^verbatim>\<open>href\<close>
  value; the loop runs over the \<^verbatim>\<open>a\<close> tags that have the attribute, in document order.
\<close>

definition add_link :: "string \<Rightarrow> scraper \<Rightarrow> string \<Rightarrow> scraper" where
  "add_link url s href =
     (if href = [] \<or> startswith href ''javascript:'' then s
      else
        let joined = split_first (CHR ''#'') (urljoin url href)
        in if joined = [] then s
           else
             let full_url = normalize_url (urljoin url href)
             in if is_valid_url s full_url \<and> full_url \<notin> visited_urls s
                then s\<lparr>found_urls := insert full_url (found_urls s)\<rparr>
                else s)"

text \<open>The \<^verbatim>\<open>href\<close> values of \<^verbatim>\<open>soup.find_all('a', href=True)\<close>.\<close>

definition hrefs :: "node \<Rightarrow> string list" where
  "hrefs soup = List.map_filter (\<lambda>a. map_of (attrs a) ''href'') (find_all soup [''a''])"

definition extract_urls :: "world \<Rightarrow> scraper \<Rightarrow> string \<Rightarrow> string \<Rightarrow> scraper" where
  "extract_urls w s url html_content =
     (if html_content = [] then s
      else foldl (add_link url) s (hrefs (parse_html w html_content)))"

section \<open>Content extraction\<close>

text \<open>
  \<^verbatim>\<open>extract_structured_content\<close>, lines 280-401, in the order of the source. The
  dictionary it returns is the record \<open>structured_content\<close>; a heading is a pair of its
  level and text, a content block a pair of its tag name and text, an image a pair of
  \<^verbatim>\<open>src\<close> and \<^verbatim>\<open>alt\<close>, a link a pair of text and \<^verbatim>\<open>href\<close>. An exception that leaves the
  function is a value of \<open>py_error\<close>.
\<close>

datatype py_error = AttributeError

record structured_content =
  page_url :: string
  title :: string
  meta_description :: string
  headings :: "(nat \<times> string) list"
  content_blocks :: "(string \<times> string) list"
  images :: "(string \<times> string) list"
  links :: "(string \<times> string) list"
  plain_text :: string

text \<open>Line 291: \<^verbatim>\<open>soup.title.string.strip() if soup.title else "No Title"\<close>. A title tag
  whose \<^verbatim>\<open>.string\<close> is \<^verbatim>\<open>None\<close> has no \<^verbatim>\<open>strip\<close>.\<close>

definition page_title :: "node \<Rightarrow> py_error + string" where
  "page_title soup =
     (case find_first soup ''title'' of
        None \<Rightarrow> Inr ''No Title''
      | Some t \<Rightarrow> (case node_string t of None \<Rightarrow> Inl AttributeError | Some str \<Rightarrow> Inr (strip str)))"

text \<open>Lines 294-297: the first \<^verbatim>\<open>meta\<close> tag whose \<^verbatim>\<open>name\<close> is \<^verbatim>\<open>description\<close>.\<close>

definition page_meta_description :: "node \<Rightarrow> string" where
  "page_meta_description soup =
     (case filter (\<lambda>m. map_of (attrs m) ''name'' = Some ''description'') (find_all soup [''meta'']) of
        [] \<Rightarrow> []
      | meta_tag # rest \<Rightarrow>
          (case map_of (attrs meta_tag) ''content'' of None \<Rightarrow> [] | Some c \<Rightarrow> strip c))"

text \<open>\<^verbatim>\<open>remove_elements\<close>, lines 273-278, and the three removals of lines 300-307.\<close>

definition remove_elements :: "node \<Rightarrow> string list \<Rightarrow> node" where
  "remove_elements soup selectors =
     foldl (\<lambda>sp selector. remove_nodes (matches_selector selector) sp) soup selectors"

definition strip_boilerplate :: "scraper \<Rightarrow> node \<Rightarrow> node" where
  "strip_boilerplate s soup =
     remove_elements
       (remove_elements
          (remove_nodes (named [''script'', ''style'', ''meta'', ''noscript'', ''svg'', ''iframe'']) soup)
          (nav_selectors s))
       (footer_selectors s)"

text \<open>Lines 310-334: the first selector with a match gives the main content, the match
  with the longest stripped text; then the longest \<^verbatim>\<open>div\<close>; then the body.\<close>

definition content_selectors :: "string list" where
  "content_selectors =
     [''article'', ''.post'', ''#post'', ''.post-content'', ''#post-content'',
      ''.entry-content'', ''#entry-content'', ''.content'', ''#content'',
      ''.page-content'', ''#page-content'', ''main'', ''.main'', ''#main'']"

fun first_selected :: "node \<Rightarrow> string list \<Rightarrow> node option" where
  "first_selected soup [] = None"
| "first_selected soup (selector # selectors) =
     (case select soup selector of
        [] \<Rightarrow> first_selected soup selectors
      | main_elements \<Rightarrow> py_max (\<lambda>x. length (get_text x)) main_elements)"

definition find_main_content :: "node \<Rightarrow> node option" where
  "find_main_content soup =
     (case first_selected soup content_selectors of
        Some m \<Rightarrow> Some m
      | None \<Rightarrow>
          (case py_max (\<lambda>x. length (get_text x)) (find_all soup [''div'']) of
             Some d \<Rightarrow> Some d
           | None \<Rightarrow> find_first soup ''body''))"

text \<open>Lines 350-357: one pass per level, \<^verbatim>\<open>h1\<close> to \<^verbatim>\<open>h6\<close>; a heading without text is
  skipped.\<close>

definition headings_of_level :: "node \<Rightarrow> nat \<Rightarrow> (nat \<times> string) list" where
  "headings_of_level main_content level =
     map (\<lambda>heading. (level, get_text heading))
       (filter (\<lambda>heading. get_text heading \<noteq> [])
          (find_all main_content [''h'' @ str_nat level]))"

definition collect_headings :: "node \<Rightarrow> (nat \<times> string) list" where
  "collect_headings main_content = concat (map (headings_of_level main_content) [1..<7])"

text \<open>Lines 360-366.\<close>

definition collect_blocks :: "node \<Rightarrow> (string \<times> string) list" where
  "collect_blocks main_content =
     map (\<lambda>p. (tag_name p, get_text p))
       (filter (\<lambda>p. get_text p \<noteq> [] \<and> 10 < length (get_text p))
          (find_all main_content [''p'', ''li'', ''blockquote'', ''pre'']))"

text \<open>Lines 369-376 and 379-386.\<close>

definition attr_or :: "node \<Rightarrow> string \<Rightarrow> string \<Rightarrow> string" where
  "attr_or n key dflt = (case map_of (attrs n) key of None \<Rightarrow> dflt | Some v \<Rightarrow> v)"

definition collect_images :: "string \<Rightarrow> node \<Rightarrow> (string \<times> string) list" where
  "collect_images url main_content =
     map (\<lambda>img. (urljoin url (attr_or img ''src'' []), strip (attr_or img ''alt'' [])))
       (filter (\<lambda>img. urljoin url (attr_or img ''src'' []) \<noteq> [])
          (find_all_with main_content ''img'' ''src''))"

definition collect_links :: "string \<Rightarrow> node \<Rightarrow> (string \<times> string) list" where
  "collect_links url main_content =
     map (\<lambda>a. (get_text a, urljoin url (attr_or a ''href'' [])))
       (filter (\<lambda>a. get_text a \<noteq> [] \<and> urljoin url (attr_or a ''href'' []) \<noteq> [])
          (find_all_with main_content ''a'' ''href''))"

text \<open>Lines 389-399.\<close>

definition build_plain_text ::
  "string \<Rightarrow> string \<Rightarrow> (nat \<times> string) list \<Rightarrow> (string \<times> string) list \<Rightarrow> string" where
  "build_plain_text ttl meta_desc hs blocks =
     strip
       (ttl @ [CHR 0x0A, CHR 0x0A]
        @ (if meta_desc \<noteq> [] then meta_desc @ [CHR 0x0A, CHR 0x0A] else [])
        @ concat (map (\<lambda>(level, txt). replicate level (CHR ''#'') @ '' '' @ txt @ [CHR 0x0A, CHR 0x0A]) hs)
        @ concat (map (\<lambda>(kind, txt). txt @ [CHR 0x0A, CHR 0x0A]) blocks))"

definition extract_structured_content ::
  "world \<Rightarrow> scraper \<Rightarrow> string \<Rightarrow> string \<Rightarrow> py_error + structured_content option" where
  "extract_structured_content w s url html_content =
     (if html_content = [] then Inr None
      else
        let soup = parse_html w html_content
        in case page_title soup of
             Inl err \<Rightarrow> Inl err
           | Inr ttl \<Rightarrow>
               let meta_desc = page_meta_description soup;
                   main_content = find_main_content (strip_boilerplate s soup);
                   hs = (case main_content of None \<Rightarrow> [] | Some m \<Rightarrow> collect_headings m);
                   blocks = (case main_content of None \<Rightarrow> [] | Some m \<Rightarrow> collect_blocks m)
               in Inr (Some
                    \<lparr>page_url = url, title = ttl, meta_description = meta_desc,
                     headings = hs, content_blocks = blocks,
                     images = (case main_content of None \<Rightarrow> [] | Some m \<Rightarrow> collect_images url m),
                     links = (case main_content of None \<Rightarrow> [] | Some m \<Rightarrow> collect_links url m),
                     plain_text = build_plain_text ttl meta_desc hs blocks\<rparr>))"

section \<open>Files on disk\<close>

text \<open>
  The files of the output and document folders: a list of paths with what was written
  (the first entry of a path is the file's content). \<^verbatim>\<open>os.path.exists\<close> is \<open>file_exists\<close>;
  opening a path for writing replaces what it held. A page artifact is the dictionary
  that \<^verbatim>\<open>save_structured_content\<close> dumps: the extracted content, \<^verbatim>\<open>chunk_info\<close>
  (\<^verbatim>\<open>word_count\<close>, \<^verbatim>\<open>char_count\<close>) and \<^verbatim>\<open>file_path\<close>.
\<close>

datatype artifact =
    Page_json structured_content nat nat string
  | Document_bytes string

type_synonym filesystem = "(string \<times> artifact) list"

definition file_exists :: "filesystem \<Rightarrow> string \<Rightarrow> bool" where
  "file_exists fs p = (map_of fs p \<noteq> None)"

definition write_file :: "filesystem \<Rightarrow> string \<Rightarrow> artifact \<Rightarrow> filesystem" where
  "write_file fs p a = (p, a) # fs"

text \<open>\<^verbatim>\<open>save_structured_content\<close>, lines 403-430.\<close>

definition page_file_path :: "scraper \<Rightarrow> string \<Rightarrow> string" where
  "page_file_path s url = path_join (output_folder s) (get_clean_filename url @ ''.json'')"

text \<open>The dictionary after lines 413-419: the content with \<^verbatim>\<open>chunk_info\<close> and
  \<^verbatim>\<open>file_path\<close> added.\<close>

definition page_artifact :: "world \<Rightarrow> scraper \<Rightarrow> structured_content \<Rightarrow> artifact" where
  "page_artifact w s sc =
     Page_json sc (length (split_ws (plain_text sc))) (length (plain_text sc))
       (abspath w (page_file_path s (page_url sc)))"

definition save_structured_content ::
  "world \<Rightarrow> scraper \<Rightarrow> filesystem \<Rightarrow> structured_content \<Rightarrow> scraper \<times> filesystem" where
  "save_structured_content w s fs sc =
     (let file_path = page_file_path s (page_url sc)
      in (s\<lparr>index_pages := index_pages s @ [(page_url sc, title sc, abspath w file_path)]\<rparr>,
          write_file fs file_path (page_artifact w s sc)))"

section \<open>Document download\<close>

text \<open>
  The first match of \<^verbatim>\<open>re.findall('filename="?([^"]+)"?', content_disposition)\<close>:
  \<open>match_filename_at\<close> is a match that starts at the head of the text (after
  \<^verbatim>\<open>filename=\<close> and at most one quote, the longest run without a quote, which must not
  be empty), \<open>first_filename\<close> tries the positions from the left.
\<close>

definition match_filename_at :: "string \<Rightarrow> string option" where
  "match_filename_at s =
     (if startswith s ''filename='' then
        let rest = drop 9 s;
            quoted = takeWhile (\<lambda>c. c \<noteq> CHR 0x22) (drop 1 rest);
            bare = takeWhile (\<lambda>c. c \<noteq> CHR 0x22) rest
        in if take 1 rest = [CHR 0x22] \<and> quoted \<noteq> [] then Some quoted
           else if bare \<noteq> [] then Some bare
           else None
      else None)"

fun first_filename :: "string \<Rightarrow> string option" where
  "first_filename [] = None"
| "first_filename (c # cs) =
     (case match_filename_at (c # cs) of Some f \<Rightarrow> Some f | None \<Rightarrow> first_filename cs)"

text \<open>Lines 174-197 of \<^verbatim>\<open>download_document\<close>: the file name from the URL path, the
  \<^verbatim>\<open>Content-Disposition\<close> header, or the count of downloaded documents.\<close>

definition has_extension :: "string \<Rightarrow> bool" where
  "has_extension filename = (filename \<noteq> [] \<and> CHR ''.'' \<in> set filename)"

definition generated_filename :: "world \<Rightarrow> scraper \<Rightarrow> response \<Rightarrow> string" where
  "generated_filename w s r =
     (let content_type =
            split_first (CHR '';'') (case header r ''Content-Type'' of None \<Rightarrow> [] | Some v \<Rightarrow> v)
      in ''document_'' @ str_nat (length (downloaded_docs s) + 1)
         @ (case guess_extension w content_type of
              None \<Rightarrow> ''.bin''
            | Some extension \<Rightarrow> if extension \<noteq> [] then extension else ''.bin''))"

definition resolve_filename :: "world \<Rightarrow> scraper \<Rightarrow> string \<Rightarrow> response \<Rightarrow> string" where
  "resolve_filename w s url r =
     (let filename = basename (url_path (urlparse url))
      in if \<not> has_extension filename then
           let filename1 =
                 (case header r ''Content-Disposition'' of
                    None \<Rightarrow> filename
                  | Some content_disposition \<Rightarrow>
                      (if content_disposition = [] then filename
                       else (case first_filename content_disposition of
                               None \<Rightarrow> filename
                             | Some fname \<Rightarrow> fname)))
           in if \<not> has_extension filename1 then generated_filename w s r else filename1
         else filename)"

text \<open>Lines 200 and 203: the text before the first \<open>?\<close>, then
  \<^verbatim>\<open>re.sub(r'[^\w\-_\. ]', '_', filename)\<close>.\<close>

definition clean_filename :: "string \<Rightarrow> string" where
  "clean_filename filename =
     map (\<lambda>c. if word_char c \<or> c \<in> set ''-_. '' then c else CHR ''_'')
       (split_first (CHR ''?'') filename)"

text \<open>
  Lines 206-214: the loop that looks for a free path,
  \<^verbatim>\<open>while os.path.exists(file_path): file_path = join(docs_folder, f"{base}_{counter}{ext}")\<close>.
  It ends because the numbered paths differ from one another and the folder holds
  finitely many files.
\<close>

definition numbered_path :: "string \<Rightarrow> string \<Rightarrow> string \<Rightarrow> nat \<Rightarrow> string" where
  "numbered_path folder base ext counter = path_join folder (base @ ''_'' @ str_nat counter @ ext)"

lemma digit_char_inj: "a < 10 \<Longrightarrow> b < 10 \<Longrightarrow> digit_char a = digit_char b \<Longrightarrow> a = b"
proof -
  have e: "d = 0 \<or> d = 1 \<or> d = 2 \<or> d = 3 \<or> d = 4 \<or> d = 5 \<or> d = 6 \<or> d = 7 \<or> d = 8 \<or> d = 9"
    if "d < 10" for d :: nat
    using that by arith
  assume a: "a < 10" and b: "b < 10" and d: "digit_char a = digit_char b"
  from e [OF a] e [OF b] d show ?thesis
    by (elim disjE) (simp_all add: digit_char_def)
qed

lemma str_nat_not_Nil: "str_nat n \<noteq> []" "[] \<noteq> str_nat n"
  by (subst str_nat.simps, simp)+

lemma str_nat_inj: "str_nat n = str_nat m \<Longrightarrow> n = m"
proof (induction n arbitrary: m rule: str_nat.induct)
  case (1 n)
  have sn: "str_nat n = (if n < 10 then [digit_char n] else str_nat (n div 10) @ [digit_char (n mod 10)])"
    by (rule str_nat.simps)
  have sm: "str_nat m = (if m < 10 then [digit_char m] else str_nat (m div 10) @ [digit_char (m mod 10)])"
    by (rule str_nat.simps)
  show ?case
  proof (cases "n < 10")
    case True
    have m: "m < 10"
    proof (rule ccontr)
      assume "\<not> m < 10"
      with True "1.prems" sn sm show False
        by (simp add: str_nat_not_Nil)
    qed
    with True "1.prems" sn sm show ?thesis
      by (auto dest: digit_char_inj)
  next
    case False
    have m: "\<not> m < 10"
    proof
      assume "m < 10"
      with False "1.prems" sn sm show False
        by (simp add: str_nat_not_Nil)
    qed
    with False "1.prems" sn sm
    have "str_nat (n div 10) = str_nat (m div 10)" "digit_char (n mod 10) = digit_char (m mod 10)"
      by simp_all
    then have "n div 10 = m div 10" "n mod 10 = m mod 10"
      using "1.IH" [OF False, of "m div 10"] digit_char_inj [of "n mod 10" "m mod 10"]
      by simp_all
    then show ?thesis
      by (metis div_mult_mod_eq)
  qed
qed

lemma numbered_path_inj:
  "numbered_path folder base ext j = numbered_path folder base ext k \<Longrightarrow> j = k"
proof -
  have st: "startswith (base @ ''_'' @ x) ''/'' = startswith (base @ ''_'') ''/''" for x
    by (cases base) (simp_all add: startswith_def)
  assume "numbered_path folder base ext j = numbered_path folder base ext k"
  then have "str_nat j @ ext = str_nat k @ ext"
    unfolding numbered_path_def path_join_def st [of "str_nat j @ ext"] st [of "str_nat k @ ext"]
    by (simp split: if_splits)
  then show ?thesis
    by (simp add: str_nat_inj)
qed

lemma finite_numbered: "finite {k. file_exists fs (numbered_path folder base ext k)}"
proof -
  have "inj (numbered_path folder base ext)"
    by (rule injI) (rule numbered_path_inj)
  then have "finite (numbered_path folder base ext -` dom (map_of fs))"
    by (intro finite_vimageI finite_dom_map_of)
  moreover have "{k. file_exists fs (numbered_path folder base ext k)}
      = numbered_path folder base ext -` dom (map_of fs)"
    by (auto simp: file_exists_def)
  ultimately show ?thesis by simp
qed

function free_path ::
  "filesystem \<Rightarrow> string \<Rightarrow> string \<Rightarrow> string \<Rightarrow> string \<Rightarrow> nat \<Rightarrow> string" where
  "free_path fs folder base ext file_path counter =
     (if file_exists fs file_path
      then free_path fs folder base ext (numbered_path folder base ext counter) (Suc counter)
      else file_path)"
  by pat_completeness auto
termination
proof (relation "measure (\<lambda>(fs, folder, base, ext, file_path, counter).
    2 * card {k. counter \<le> k \<and> file_exists fs (numbered_path folder base ext k)}
    + (if file_exists fs file_path then 1 else 0))", goal_cases)
  case 1
  show ?case by simp
next
  case (2 fs folder base ext file_path counter)
  let ?A = "\<lambda>c. {k. c \<le> k \<and> file_exists fs (numbered_path folder base ext k)}"
  have fin: "finite (?A c)" for c
    by (rule finite_subset [OF _ finite_numbered [of fs folder base ext]]) auto
  show ?case
  proof (cases "file_exists fs (numbered_path folder base ext counter)")
    case False
    then have "?A (Suc counter) = ?A counter"
      by (auto simp: Suc_le_eq le_less)
    with 2 False show ?thesis by simp
  next
    case True
    then have "?A counter = insert counter (?A (Suc counter))"
      by (auto simp: Suc_le_eq le_less)
    moreover have "counter \<notin> ?A (Suc counter)" by simp
    ultimately have "card (?A counter) = Suc (card (?A (Suc counter)))"
      using card_insert_disjoint [OF fin [of "Suc counter"], of counter] by simp
    with 2 True show ?thesis by simp
  qed
qed

declare free_path.simps [simp del]

definition unique_path :: "filesystem \<Rightarrow> string \<Rightarrow> string \<Rightarrow> string" where
  "unique_path fs folder filename =
     (let file_path = path_join folder filename
      in if file_exists fs file_path
         then free_path fs folder (fst (splitext filename)) (snd (splitext filename)) file_path 1
         else file_path)"

text \<open>
  \<^verbatim>\<open>download_document\<close>, lines 162-242: the new scraper, the new files and the returned
  path (\<open>None\<close> for a request that fails or a status other than 200).
\<close>

definition download_document ::
  "world \<Rightarrow> scraper \<Rightarrow> filesystem \<Rightarrow> string \<Rightarrow> scraper \<times> filesystem \<times> string option" where
  "download_document w s fs url =
     (case fetch_document w url of
        None \<Rightarrow> (s, fs, None)
      | Some r \<Rightarrow>
          if resp_status r \<noteq> 200 then (s, fs, None)
          else
            let filename = clean_filename (resolve_filename w s url r);
                file_path = unique_path fs (docs_folder s) filename;
                data = resp_body r;
                content_type =
                  split_first (CHR '';'') (case header r ''Content-Type'' of None \<Rightarrow> [] | Some v \<Rightarrow> v);
                info = \<lparr>doc_url = url, doc_file_path = abspath w file_path, doc_title = filename,
                         doc_content_type = content_type, doc_size_bytes = length data\<rparr>
            in (s\<lparr>downloaded_docs := downloaded_docs s @ [info],
                   index_documents := index_documents s @ [info]\<rparr>,
                write_file fs file_path (Document_bytes data),
                Some (abspath w file_path)))"

text \<open>Several documents, one after the other.\<close>

fun download_documents :: "world \<Rightarrow> scraper \<Rightarrow> filesystem \<Rightarrow> string list \<Rightarrow> scraper \<times> filesystem" where
  "download_documents w s fs [] = (s, fs)"
| "download_documents w s fs (url # urls) =
     (case download_document w s fs url of (s', fs', r) \<Rightarrow> download_documents w s' fs' urls)"

section \<open>The crawl loop\<close>

text \<open>
  The loop of \<^verbatim>\<open>scrape\<close>, lines 493-514. \<open>scrape_iteration\<close> is its body for the URL that
  \<^verbatim>\<open>self.found_urls.pop()\<close> returned; an exception of the extractor leaves the loop.
\<close>

definition scrape_iteration ::
  "world \<Rightarrow> string \<Rightarrow> scraper \<times> filesystem \<Rightarrow> py_error + scraper \<times> filesystem" where
  "scrape_iteration w url c =
     (let s1 = (fst c)\<lparr>found_urls := found_urls (fst c) - {url}\<rparr>;
          fs = snd c
      in if url \<in> visited_urls s1 then Inr (s1, fs)
         else
           let s2 = s1\<lparr>visited_urls := insert url (visited_urls s1)\<rparr>
           in if is_document url
              then (case download_document w s2 fs url of (s3, fs3, r) \<Rightarrow> Inr (s3, fs3))
              else
                (case get_page_content w url of
                   None \<Rightarrow> Inr (s2, fs)
                 | Some html_content \<Rightarrow>
                     if html_content = [] then Inr (s2, fs)
                     else
                       let s3 = extract_urls w s2 url html_content
                       in (case extract_structured_content w s3 url html_content of
                             Inl err \<Rightarrow> Inl err
                           | Inr None \<Rightarrow> Inr (s3, fs)
                           | Inr (Some sc) \<Rightarrow> Inr (save_structured_content w s3 fs sc))))"

text \<open>
  The same loop, one change of the scraper at a time. A point of the loop is its head,
  the place after \<^verbatim>\<open>pop\<close>, the place after \<^verbatim>\<open>self.visited_urls.add(url)\<close>, a place inside
  the loop of \<^verbatim>\<open>extract_urls\<close> (with the links still to be looked at), the end of the
  loop, or the exception that left it. \<open>choice\<close> is the member that \<^verbatim>\<open>pop\<close> takes, which
  a Python set does not fix.
\<close>

datatype point =
    Loop_head
  | Popped string
  | Marked string
  | Extracting string string "string list"
  | Finished
  | Raised py_error

type_synonym crawl = "point \<times> scraper \<times> filesystem"

fun scrape_step :: "world \<Rightarrow> string \<Rightarrow> crawl \<Rightarrow> crawl option" where
  "scrape_step w choice (Loop_head, s, fs) =
     (if found_urls s = {} then Some (Finished, s, fs)
      else if choice \<in> found_urls s
      then Some (Popped choice, s\<lparr>found_urls := found_urls s - {choice}\<rparr>, fs)
      else None)"
| "scrape_step w choice (Popped url, s, fs) =
     (if url \<in> visited_urls s then Some (Loop_head, s, fs)
      else Some (Marked url, s\<lparr>visited_urls := insert url (visited_urls s)\<rparr>, fs))"
| "scrape_step w choice (Marked url, s, fs) =
     (if is_document url
      then (case download_document w s fs url of (s', fs', r) \<Rightarrow> Some (Loop_head, s', fs'))
      else
        (case get_page_content w url of
           None \<Rightarrow> Some (Loop_head, s, fs)
         | Some html_content \<Rightarrow>
             if html_content = [] then Some (Loop_head, s, fs)
             else Some (Extracting url html_content (hrefs (parse_html w html_content)), s, fs)))"
| "scrape_step w choice (Extracting url html_content (href # rest), s, fs) =
     Some (Extracting url html_content rest, add_link url s href, fs)"
| "scrape_step w choice (Extracting url html_content [], s, fs) =
     (case extract_structured_content w s url html_content of
        Inl err \<Rightarrow> Some (Raised err, s, fs)
      | Inr None \<Rightarrow> Some (Loop_head, s, fs)
      | Inr (Some sc) \<Rightarrow>
          (case save_structured_content w s fs sc of (s', fs') \<Rightarrow> Some (Loop_head, s', fs')))"
| "scrape_step w choice (Finished, s, fs) = None"
| "scrape_step w choice (Raised err, s, fs) = None"

text \<open>The points a crawl can reach from a starting point.\<close>

inductive reaches :: "world \<Rightarrow> crawl \<Rightarrow> crawl \<Rightarrow> bool" for w :: world and c0 :: crawl where
  start: "reaches w c0 c0"
| step: "reaches w c0 c \<Longrightarrow> scrape_step w choice c = Some c' \<Longrightarrow> reaches w c0 c'"

section \<open>Notions for the statements\<close>

text \<open>
  The headings of a node as the specification words them: the \<^verbatim>\<open>h1\<close> to \<^verbatim>\<open>h6\<close> tags
  below it that have text, in document order, each with its level and text. The
  extractor's own list is \<open>collect_headings\<close> above; the two are compared below.
\<close>

definition heading_level :: "node \<Rightarrow> nat option" where
  "heading_level n =
     (if is_tag n
      then map_of [(''h1'', 1), (''h2'', 2), (''h3'', 3), (''h4'', 4), (''h5'', 5), (''h6'', 6)] (tag_name n)
      else None)"

definition headings_in_document_order :: "node \<Rightarrow> (nat \<times> string) list" where
  "headings_in_document_order main_content =
     List.map_filter
       (\<lambda>n. case heading_level n of
               None \<Rightarrow> None
             | Some level \<Rightarrow> if get_text n = [] then None else Some (level, get_text n))
       (descendants main_content)"

text \<open>The pending set after an iteration of the loop (none after an exception).\<close>

fun pending_after :: "py_error + scraper \<times> filesystem \<Rightarrow> string set option" where
  "pending_after (Inl err) = None"
| "pending_after (Inr (s, fs)) = Some (found_urls s)"






text \<open>The file name that the \<^verbatim>\<open>Content-Disposition\<close> header gives (none without the
  header or without a match), and the declared content type before its first \<open>;\<close>.\<close>

definition disposition_filename :: "response \<Rightarrow> string option" where
  "disposition_filename r =
     (case header r ''Content-Disposition'' of
        None \<Rightarrow> None
      | Some content_disposition \<Rightarrow> first_filename content_disposition)"

definition declared_content_type :: "response \<Rightarrow> string" where
  "declared_content_type r =
     split_first (CHR '';'') (case header r ''Content-Type'' of None \<Rightarrow> [] | Some v \<Rightarrow> v)"

text \<open>A download succeeds when the request returns with status 200.\<close>

definition download_succeeds :: "world \<Rightarrow> string \<Rightarrow> bool" where
  "download_succeeds w url =
     (case fetch_document w url of None \<Rightarrow> False | Some r \<Rightarrow> resp_status r = 200)"

text \<open>Several steps of the loop, one choice for each.\<close>

fun scrape_steps :: "world \<Rightarrow> string list \<Rightarrow> crawl \<Rightarrow> crawl option" where
  "scrape_steps w [] c = Some c"
| "scrape_steps w (choice # choices) c =
     (case scrape_step w choice c of None \<Rightarrow> None | Some c' \<Rightarrow> scrape_steps w choices c')"

text \<open>The invariant: no URL is visited and pending, and the URL that \<^verbatim>\<open>pop\<close> returned is no
  longer pending.\<close>

definition frontier_ok :: "crawl \<Rightarrow> bool" where
  "frontier_ok c =
     (case c of (pt, s, fs) \<Rightarrow>
        visited_urls s \<inter> found_urls s = {}
        \<and> (case pt of Popped url \<Rightarrow> url \<notin> found_urls s | _ \<Rightarrow> True))"

text \<open>The page record of an artifact without its \<^verbatim>\<open>file_path\<close>: the content and the two
  counts of \<^verbatim>\<open>chunk_info\<close>.\<close>

fun page_record :: "artifact \<Rightarrow> (structured_content \<times> nat \<times> nat) option" where
  "page_record (Page_json sc word_count char_count file_path) = Some (sc, word_count, char_count)"
| "page_record (Document_bytes data) = None"

text \<open>
  The page record as a function of the URL and the parsed document alone, with every
  order and every tie written out; the extractor is compared with it below.

  \<^item> \<open>first_maximal\<close>: the first element of a list whose key no element of the list
    exceeds.
  \<^item> \<open>boilerplate\<close>: the nodes that leave the document, those with one of the six tag
    names or matched by one of the selectors that \<^verbatim>\<open>__init__\<close> sets; they are removed
    in one pass.
  \<^item> \<open>main_content_of\<close>: for the first content selector that matches anything in the
    cleaned document, the first of its matches with the longest stripped text; else
    the first \<^verbatim>\<open>div\<close> with the longest stripped text; else the first \<^verbatim>\<open>body\<close>.
  \<^item> Content blocks, images and links: one pass over the nodes below the main content
    in document order. Headings: those in document order, sorted by level (stably).
\<close>

definition first_maximal :: "('a \<Rightarrow> nat) \<Rightarrow> 'a list \<Rightarrow> 'a option" where
  "first_maximal key xs = List.find (\<lambda>x. list_all (\<lambda>y. key y \<le> key x) xs) xs"

definition boilerplate :: "node \<Rightarrow> bool" where
  "boilerplate n =
     (named [''script'', ''style'', ''meta'', ''noscript'', ''svg'', ''iframe''] n
      \<or> list_ex (\<lambda>selector. matches_selector selector n)
           (nav_selectors (init_scraper [] [] []) @ footer_selectors (init_scraper [] [] [])))"

definition main_content_of :: "node \<Rightarrow> node option" where
  "main_content_of soup =
     (let cleaned = remove_nodes boilerplate soup
      in case List.find (\<lambda>selector. select cleaned selector \<noteq> []) content_selectors of
           Some selector \<Rightarrow> first_maximal (\<lambda>x. length (get_text x)) (select cleaned selector)
         | None \<Rightarrow>
             (case first_maximal (\<lambda>x. length (get_text x)) (find_all cleaned [''div'']) of
                Some d \<Rightarrow> Some d
              | None \<Rightarrow> find_first cleaned ''body''))"

definition blocks_in_document_order :: "node \<Rightarrow> (string \<times> string) list" where
  "blocks_in_document_order main_content =
     List.map_filter
       (\<lambda>n. if named [''p'', ''li'', ''blockquote'', ''pre''] n \<and> 10 < length (get_text n)
            then Some (tag_name n, get_text n) else None)
       (descendants main_content)"

definition images_in_document_order :: "string \<Rightarrow> node \<Rightarrow> (string \<times> string) list" where
  "images_in_document_order url main_content =
     List.map_filter
       (\<lambda>n. if named [''img''] n
            then (case map_of (attrs n) ''src'' of
                    None \<Rightarrow> None
                  | Some src \<Rightarrow>
                      if urljoin url src = [] then None
                      else Some (urljoin url src, strip (attr_or n ''alt'' [])))
            else None)
       (descendants main_content)"

definition links_in_document_order :: "string \<Rightarrow> node \<Rightarrow> (string \<times> string) list" where
  "links_in_document_order url main_content =
     List.map_filter
       (\<lambda>n. if named [''a''] n
            then (case map_of (attrs n) ''href'' of
                    None \<Rightarrow> None
                  | Some href \<Rightarrow>
                      if get_text n = [] \<or> urljoin url href = [] then None
                      else Some (get_text n, urljoin url href))
            else None)
       (descendants main_content)"

definition extracted_page :: "string \<Rightarrow> node \<Rightarrow> py_error + structured_content option" where
  "extracted_page url soup =
     (case page_title soup of
        Inl err \<Rightarrow> Inl err
      | Inr ttl \<Rightarrow>
          let main_content = main_content_of soup;
              hs = (case main_content of
                      None \<Rightarrow> []
                    | Some m \<Rightarrow> sort_key fst (headings_in_document_order m));
              blocks = (case main_content of None \<Rightarrow> [] | Some m \<Rightarrow> blocks_in_document_order m)
          in Inr (Some
               \<lparr>page_url = url, title = ttl, meta_description = page_meta_description soup,
                headings = hs, content_blocks = blocks,
                images = (case main_content of None \<Rightarrow> [] | Some m \<Rightarrow> images_in_document_order url m),
                links = (case main_content of None \<Rightarrow> [] | Some m \<Rightarrow> links_in_document_order url m),
                plain_text = build_plain_text ttl (page_meta_description soup) hs blocks\<rparr>))"

section \<open>Examples\<close>

text \<open>
  A world for examples: pages and documents by URL, the tree that \<^verbatim>\<open>bs4\<close> builds for
  each HTML text, two entries of the MIME table, and a working directory for
  \<^verbatim>\<open>abspath\<close>. The sample page has a navigation block, an article with an \<^verbatim>\<open>h2\<close> before
  an \<^verbatim>\<open>h1\<close>, a paragraph of ten characters and one of eleven, an image and a link.
\<close>

definition example_world ::
  "(string \<times> string) list \<Rightarrow> (string \<times> node) list \<Rightarrow> (string \<times> response) list \<Rightarrow> world" where
  "example_world pages soups responses =
     \<lparr>parse_html = (\<lambda>html. case map_of soups html of None \<Rightarrow> Tag ''[document]'' [] [] | Some soup \<Rightarrow> soup),
      get_page_content = map_of pages,
      fetch_document = map_of responses,
      guess_extension = map_of [(''application/pdf'', ''.pdf''), (''text/plain'', ''.txt'')],
      abspath = (\<lambda>p. if startswith p ''/'' then p else ''/srv/crawl/'' @ p)\<rparr>"

definition sample_html :: string where
  "sample_html = ''<html><head><title> Sample </title><meta name=description content=About></head><body><nav><p>navigation text here</p></nav><article><h2>Second</h2><h1>First</h1><p>0123456789</p><p>0123456789a</p><img src=/i.png alt=Logo><a href=/about>About</a></article></body></html>''"

definition sample_article :: node where
  "sample_article =
     Tag ''article'' []
       [Tag ''h2'' [] [Text ''Second''], Tag ''h1'' [] [Text ''First''],
        Tag ''p'' [] [Text ''0123456789''], Tag ''p'' [] [Text ''0123456789a''],
        Tag ''img'' [(''src'', ''/i.png''), (''alt'', ''Logo'')] [],
        Tag ''a'' [(''href'', ''/about'')] [Text ''About'']]"

definition sample_soup :: node where
  "sample_soup =
     Tag ''[document]'' []
       [Tag ''html'' []
          [Tag ''head'' []
             [Tag ''title'' [] [Text '' Sample ''],
              Tag ''meta'' [(''name'', ''description''), (''content'', ''About'')] []],
           Tag ''body'' []
             [Tag ''nav'' [] [Tag ''p'' [] [Text ''navigation text here'']], sample_article]]]"

definition sample_world :: world where
  "sample_world = example_world [(''https://example.com/'', sample_html)] [(sample_html, sample_soup)] []"

definition sample_scraper :: scraper where
  "sample_scraper = init_scraper ''https://example.com/'' ''scraped_data'' ''downloaded_docs''"

definition sample_page :: structured_content where
  "sample_page =
     \<lparr>page_url = ''https://example.com/'', title = ''Sample'', meta_description = ''About'',
      headings = [(1, ''First''), (2, ''Second'')],
      content_blocks = [(''p'', ''0123456789a'')],
      images = [(''https://example.com/i.png'', ''Logo'')],
      links = [(''About'', ''https://example.com/about'')],
      plain_text = ''Sample'' @ [CHR 0x0A, CHR 0x0A] @ ''About'' @ [CHR 0x0A, CHR 0x0A]
        @ ''# First'' @ [CHR 0x0A, CHR 0x0A] @ ''## Second'' @ [CHR 0x0A, CHR 0x0A] @ ''0123456789a''\<rparr>"

text \<open>A page whose \<^verbatim>\<open>title\<close> tag is empty, and the tree \<^verbatim>\<open>bs4\<close> builds for it.\<close>

definition empty_title_html :: string where
  "empty_title_html = ''<html><head><title></title></head><body><p>Hello, world!</p></body></html>''"

definition empty_title_soup :: node where
  "empty_title_soup =
     Tag ''[document]'' []
       [Tag ''html'' []
          [Tag ''head'' [] [Tag ''title'' [] []],
           Tag ''body'' [] [Tag ''p'' [] [Text ''Hello, world!'']]]]"

definition empty_title_world :: world where
  "empty_title_world =
     example_world [(''https://example.com/'', empty_title_html)] [(empty_title_html, empty_title_soup)] []"

text \<open>The start page of the scenario: one link to \<^verbatim>\<open>/about\<close>, one to another site.\<close>

definition two_links_html :: string where
  "two_links_html = ''<html><head><title>Home</title></head><body><a href=/about>About</a><a href=https://other.com/x>Other</a></body></html>''"

definition two_links_soup :: node where
  "two_links_soup =
     Tag ''[document]'' []
       [Tag ''html'' []
          [Tag ''head'' [] [Tag ''title'' [] [Text ''Home'']],
           Tag ''body'' []
             [Tag ''a'' [(''href'', ''/about'')] [Text ''About''],
              Tag ''a'' [(''href'', ''https://other.com/x'')] [Text ''Other'']]]]"

definition two_links_world :: world where
  "two_links_world =
     example_world [(''https://example.com/'', two_links_html)] [(two_links_html, two_links_soup)] []"

text \<open>The same page with the two links in the other order.\<close>

definition links_reversed_html :: string where
  "links_reversed_html = ''<html><head><title>Home</title></head><body><a href=https://other.com/x>Other</a><a href=/about>About</a></body></html>''"

definition links_reversed_soup :: node where
  "links_reversed_soup =
     Tag ''[document]'' []
       [Tag ''html'' []
          [Tag ''head'' [] [Tag ''title'' [] [Text ''Home'']],
           Tag ''body'' []
             [Tag ''a'' [(''href'', ''https://other.com/x'')] [Text ''Other''],
              Tag ''a'' [(''href'', ''/about'')] [Text ''About'']]]]"

definition links_reversed_world :: world where
  "links_reversed_world =
     example_world [(''https://example.com/'', links_reversed_html)]
       [(links_reversed_html, links_reversed_soup)] []"




text \<open>A page with two articles whose texts are equally long once the menu of the first
  and the sidebar of the second are gone, and the record the extractor gives for it.\<close>

definition tie_html :: string where
  "tie_html = ''<html><head><title>Tie</title></head><body><article><div class=menu><p>menu entry text</p></div><p>first article text</p></article><article><p>other article text</p><div id=sidebar><p>side bar text</p></div></article></body></html>''"

definition tie_soup :: node where
  "tie_soup =
     Tag ''[document]'' []
       [Tag ''html'' []
          [Tag ''head'' [] [Tag ''title'' [] [Text ''Tie'']],
           Tag ''body'' []
             [Tag ''article'' []
                [Tag ''div'' [(''class'', ''menu'')] [Tag ''p'' [] [Text ''menu entry text'']],
                 Tag ''p'' [] [Text ''first article text'']],
              Tag ''article'' []
                [Tag ''p'' [] [Text ''other article text''],
                 Tag ''div'' [(''id'', ''sidebar'')] [Tag ''p'' [] [Text ''side bar text'']]]]]]"

definition tie_world :: world where
  "tie_world = example_world [(''https://example.com/tie'', tie_html)] [(tie_html, tie_soup)] []"

definition tie_page :: structured_content where
  "tie_page =
     \<lparr>page_url = ''https://example.com/tie'', title = ''Tie'', meta_description = [],
      headings = [], content_blocks = [(''p'', ''first article text'')],
      images = [], links = [],
      plain_text = ''Tie'' @ [CHR 0x0A, CHR 0x0A] @ ''first article text''\<rparr>"

text \<open>Responses for examples; \<open>quoted\<close> puts a text between double quotes.\<close>

definition quoted :: "string \<Rightarrow> string" where
  "quoted s = [CHR 0x22] @ s @ [CHR 0x22]"

definition named_response :: "string \<Rightarrow> string \<Rightarrow> response" where
  "named_response disposition content_type =
     \<lparr>resp_status = 200,
      resp_headers = [(''Content-Disposition'', disposition), (''Content-Type'', content_type)],
      resp_body = ''%PDF-1.4''\<rparr>"

definition typed_response :: "string \<Rightarrow> response" where
  "typed_response content_type =
     \<lparr>resp_status = 200, resp_headers = [(''Content-Type'', content_type)],
      resp_body = ''%PDF-1.4''\<rparr>"

text \<open>Three documents named \<^verbatim>\<open>report.pdf\<close>, downloaded into a folder that holds a
  \<^verbatim>\<open>report.pdf\<close> already.\<close>

definition report_urls :: "string list" where
  "report_urls =
     [''https://example.com/2023/report.pdf'', ''https://example.com/2024/report.pdf'',
      ''https://example.com/2025/report.pdf'']"

definition reports_world :: world where
  "reports_world =
     example_world [] [] (map (\<lambda>url. (url, typed_response ''application/pdf'')) report_urls)"

section \<open>Normalisation of links\<close>

lemma endswith_suffix: "endswith s suf \<longleftrightarrow> suffix suf s"
  unfolding endswith_def suffix_def
  by (metis append_eq_conv_conj append_take_drop_id diff_add_inverse2 le_add2 length_append
      length_drop)

lemma endswith_slash: "endswith s ''/'' \<longleftrightarrow> s \<noteq> [] \<and> last s = CHR ''/''"
  unfolding endswith_suffix suffix_def
  by (metis last_snoc snoc_eq_iff_butlast)

lemma endswith_two_slashes:
  "endswith s ''//'' \<longleftrightarrow> endswith s ''/'' \<and> endswith (butlast s) ''/''"
proof (cases s rule: rev_cases)
  case Nil
  then show ?thesis by (simp add: endswith_def)
next
  case (snoc ys y)
  have "suffix ''//'' (ys @ [y]) \<longleftrightarrow> y = CHR ''/'' \<and> suffix ''/'' ys"
    using snoc_suffix_snoc [of "''/''" "CHR ''/''" ys y] by auto
  moreover have "suffix ''/'' (ys @ [y]) \<longleftrightarrow> y = CHR ''/''"
    using snoc_suffix_snoc [of "[]" "CHR ''/''" ys y] by auto
  ultimately show ?thesis
    using snoc by (simp add: endswith_suffix)
qed

text \<open>A document URL ends with a letter or digit of its extension, never with a slash.\<close>

lemma is_document_last:
  assumes "is_document u"
  shows "u \<noteq> [] \<and> last u \<noteq> CHR ''/''"
proof -
  from assms obtain ext where ext: "ext \<in> set document_extensions" "suffix ext (lower u)"
    by (auto simp: is_document_def list_ex_iff endswith_suffix)
  from ext(1) have e: "ext \<noteq> [] \<and> last ext \<noteq> CHR ''/''"
    by (auto simp: document_extensions_def)
  from ext(2) obtain p where p: "lower u = p @ ext"
    by (auto simp: suffix_def)
  with e have n: "u \<noteq> []"
    by (auto simp: lower_def)
  from p e have "last (lower u) = last ext"
    by simp
  with n have "lower_char (last u) = last ext"
    by (simp add: lower_def last_map)
  moreover have "lower_char (CHR ''/'') = CHR ''/''"
    by (simp add: lower_char_def)
  ultimately show ?thesis
    using e n by auto
qed

lemma split_first_idem: "split_first c (split_first c s) = split_first c s"
  by (simp add: split_first_def)

lemma split_first_butlast:
  "split_first c (butlast (split_first c s)) = butlast (split_first c s)"
  unfolding split_first_def
  by (rule takeWhile_eq_all_conv [THEN iffD2]) (auto dest: in_set_butlastD set_takeWhileD)

text \<open>
  Claim C4, as the code has it. Normalising twice gives the same URL as normalising once
  exactly when the URL, cut at its first \<open>#\<close>, does not end in two slashes: the code
  removes one trailing slash, so a second pass removes another.
\<close>

theorem normalize_url_idempotent_iff:
  "normalize_url (normalize_url u) = normalize_url u
     \<longleftrightarrow> \<not> endswith (split_first (CHR ''#'') u) ''//''"
proof -
  define v where "v = split_first (CHR ''#'') u"
  have v1: "split_first (CHR ''#'') v = v"
    by (simp add: v_def split_first_idem)
  have v2: "split_first (CHR ''#'') (butlast v) = butlast v"
    by (simp add: v_def split_first_butlast)
  have "normalize_url (normalize_url u) = normalize_url u \<longleftrightarrow> \<not> endswith v ''//''"
  proof (cases "\<not> is_document v \<and> endswith v ''/''")
    case False
    then have "normalize_url u = v"
      by (auto simp: normalize_url_def v_def Let_def)
    moreover from False have "normalize_url v = v"
      by (auto simp: normalize_url_def v1 Let_def)
    moreover from False have "\<not> endswith v ''//''"
      using is_document_last [of v] by (auto simp: endswith_two_slashes endswith_slash)
    ultimately show ?thesis
      by simp
  next
    case True
    then have n: "normalize_url u = butlast v"
      by (auto simp: normalize_url_def v_def Let_def)
    show ?thesis
    proof (cases "endswith (butlast v) ''/''")
      case False
      then have "normalize_url (butlast v) = butlast v"
        by (auto simp: normalize_url_def v2 Let_def)
      with n True False show ?thesis
        by (simp add: endswith_two_slashes)
    next
      case e: True
      then have nd: "\<not> is_document (butlast v)"
        using is_document_last [of "butlast v"] by (auto simp: endswith_slash)
      with e have "normalize_url (butlast v) = butlast (butlast v)"
        by (auto simp: normalize_url_def v2 Let_def)
      moreover from e have "butlast (butlast v) \<noteq> butlast v"
        by (cases "butlast v" rule: rev_cases) (auto simp: endswith_slash)
      ultimately show ?thesis
        using n True e by (simp add: endswith_two_slashes)
    qed
  qed
  then show ?thesis
    by (simp add: v_def)
qed

text \<open>The theorem at a link with a fragment and one trailing slash: both passes give
  \<^verbatim>\<open>https://example.com/a\<close>.\<close>

theorem normalize_url_idempotent_witness:
  "normalize_url (normalize_url ''https://example.com/a/#top'') = ''https://example.com/a''
   \<and> normalize_url ''https://example.com/a/#top'' = ''https://example.com/a''"
proof -
  have h: "\<not> endswith (split_first (CHR ''#'') ''https://example.com/a/#top'') ''//''"
    by code_simp
  have v: "normalize_url ''https://example.com/a/#top'' = ''https://example.com/a''"
    by code_simp
  from h have "normalize_url (normalize_url ''https://example.com/a/#top'')
      = normalize_url ''https://example.com/a/#top''"
    using normalize_url_idempotent_iff [of "''https://example.com/a/#top''"] by blast
  with v show ?thesis
    by simp
qed

text \<open>Claim C4 as stated fails: a link that ends in two slashes loses one slash in each
  pass.\<close>

theorem normalize_url_not_idempotent:
  "normalize_url (normalize_url ''https://example.com/a//'') \<noteq> normalize_url ''https://example.com/a//''"
  by code_simp

section \<open>Headings by level and in document order\<close>

lemma str_nat_digit: "n < 10 \<Longrightarrow> str_nat n = [digit_char n]"
  by (subst str_nat.simps) simp

lemma heading_tag_level:
  assumes "1 \<le> level" "level < 7"
  shows "named [CHR ''h'' # str_nat level] n \<longleftrightarrow> heading_level n = Some level"
proof -
  from assms have "level = 1 \<or> level = 2 \<or> level = 3 \<or> level = 4 \<or> level = 5 \<or> level = 6"
    by arith
  then show ?thesis
    by (elim disjE) (auto simp: named_def heading_level_def str_nat_digit digit_char_def)
qed

lemma heading_level_range: "heading_level n = Some level \<Longrightarrow> 1 \<le> level \<and> level < 7"
  by (auto simp: heading_level_def split: if_splits)

lemma headings_of_level_filter:
  assumes "1 \<le> level" "level < 7"
  shows "headings_of_level m level = filter (\<lambda>h. fst h = level) (headings_in_document_order m)"
proof -
  have "map (\<lambda>heading. (level, get_text heading))
          (filter (\<lambda>heading. get_text heading \<noteq> []) (filter (named [''h'' @ str_nat level]) ds))
        = filter (\<lambda>h. fst h = level)
            (List.map_filter
              (\<lambda>n. case heading_level n of
                      None \<Rightarrow> None
                    | Some l \<Rightarrow> if get_text n = [] then None else Some (l, get_text n)) ds)" for ds
    by (induction ds) (auto simp: List.map_filter_simps heading_tag_level [OF assms] split: option.splits)
  then show ?thesis
    by (simp add: headings_of_level_def headings_in_document_order_def find_all_def)
qed

lemma fst_document_heading:
  assumes "h \<in> set (headings_in_document_order m)"
  shows "1 \<le> fst h \<and> fst h < 7"
proof -
  from assms obtain n where "heading_level n = Some (fst h)"
    by (auto simp: headings_in_document_order_def List.map_filter_def
        split: option.splits if_splits)
  then show ?thesis
    by (rule heading_level_range)
qed

text \<open>Filtering a list once per key, in the order of the keys, sorts it by key and keeps
  the order of equal keys.\<close>

lemma groups_mset:
  "mset (concat (map (\<lambda>l. filter (\<lambda>x. f x = l) xs) [a..<b])) = mset (filter (\<lambda>x. a \<le> f x \<and> f x < b) xs)"
proof (induction b)
  case 0
  then show ?case by simp
next
  case (Suc b)
  show ?case
  proof (cases "a \<le> b")
    case True
    have "mset (filter (\<lambda>x. a \<le> f x \<and> f x < b) xs) + mset (filter (\<lambda>x. f x = b) xs)
        = mset (filter (\<lambda>x. a \<le> f x \<and> f x < Suc b) xs)"
      using True by (induction xs) auto
    with True Suc show ?thesis by simp
  next
    case False
    then have "filter (\<lambda>x. a \<le> f x \<and> f x < Suc b) xs = []"
      by (auto simp: filter_empty_conv)
    with False show ?thesis by simp
  qed
qed

lemma groups_filter:
  "filter (\<lambda>x. f x = k) (concat (map (\<lambda>l. filter (\<lambda>x. f x = l) xs) [a..<b]))
     = (if a \<le> k \<and> k < b then filter (\<lambda>x. f x = k) xs else [])"
proof (induction b)
  case 0
  then show ?case by simp
next
  case (Suc b)
  have "filter (\<lambda>x. f x = k) (filter (\<lambda>x. f x = b) xs) = (if k = b then filter (\<lambda>x. f x = k) xs else [])"
    by (auto simp: filter_empty_conv intro: filter_cong)
  with Suc show ?case
    by (cases "a \<le> b") auto
qed

lemma groups_sorted:
  "sorted (map f (concat (map (\<lambda>l. filter (\<lambda>x. f x = l) xs) [a..<b])))"
proof (induction b)
  case 0
  then show ?case by simp
next
  case (Suc b)
  have same: "sorted (map f (filter (\<lambda>x. f x = b) xs))"
    by (induction xs) auto
  show ?case
  proof (cases "a \<le> b")
    case True
    with Suc same show ?thesis
      by (auto simp: sorted_append)
  next
    case False
    then show ?thesis by simp
  qed
qed

lemma groups_sort_key:
  fixes f :: "'a \<Rightarrow> nat"
  assumes "\<And>x. x \<in> set xs \<Longrightarrow> a \<le> f x \<and> f x < b"
  shows "concat (map (\<lambda>l. filter (\<lambda>x. f x = l) xs) [a..<b]) = sort_key f xs"
proof (rule properties_for_sort_key [symmetric])
  from assms have "filter (\<lambda>x. a \<le> f x \<and> f x < b) xs = xs"
    by (auto simp: filter_id_conv)
  then show "mset (concat (map (\<lambda>l. filter (\<lambda>x. f x = l) xs) [a..<b])) = mset xs"
    by (simp add: groups_mset)
next
  fix k
  assume "k \<in> set (concat (map (\<lambda>l. filter (\<lambda>x. f x = l) xs) [a..<b]))"
  then have "k \<in> set xs" by auto
  with assms have "a \<le> f k \<and> f k < b" by blast
  then show "filter (\<lambda>x. f k = f x) (concat (map (\<lambda>l. filter (\<lambda>x. f x = l) xs) [a..<b]))
      = filter (\<lambda>x. f k = f x) xs"
    using groups_filter [of f "f k" xs a b] by (simp add: eq_commute)
next
  show "sorted (map f (concat (map (\<lambda>l. filter (\<lambda>x. f x = l) xs) [a..<b])))"
    by (rule groups_sorted)
qed

lemma collect_headings_sorted:
  "collect_headings m = sort_key fst (headings_in_document_order m)"
proof -
  have "collect_headings m
      = concat (map (\<lambda>l. filter (\<lambda>h. fst h = l) (headings_in_document_order m)) [1..<7])"
    unfolding collect_headings_def
    by (intro arg_cong [where f = concat] map_cong refl) (simp add: headings_of_level_filter)
  also have "\<dots> = sort_key fst (headings_in_document_order m)"
    by (rule groups_sort_key) (rule fst_document_heading)
  finally show ?thesis .
qed

section \<open>The sample page, extracted\<close>

lemma sample_extract:
  "extract_structured_content sample_world sample_scraper ''https://example.com/'' sample_html
     = Inr (Some sample_page)"
  by code_simp

lemma sample_main:
  "find_main_content (strip_boilerplate sample_scraper (parse_html sample_world sample_html))
     = Some sample_article"
  by code_simp

section \<open>Headings and content blocks of a page\<close>

text \<open>
  Claim C5, as the code has it. The headings of the page record are the headings of the
  main-content node that have text, sorted by level: all of level 1 first, then level 2,
  up to level 6, and in document order within one level (the sort is stable). They are
  in document order only when the levels never decrease along the document.
\<close>

theorem headings_sorted_by_level:
  assumes "extract_structured_content w s url html_content = Inr (Some sc)"
  shows "headings sc =
    (case find_main_content (strip_boilerplate s (parse_html w html_content)) of
       None \<Rightarrow> []
     | Some m \<Rightarrow> sort_key fst (headings_in_document_order m))"
  using assms
  by (auto simp: extract_structured_content_def Let_def collect_headings_sorted
      split: if_splits sum.splits option.splits)

text \<open>The theorem on the sample page: \<^verbatim>\<open>Second\<close> (level 2) comes first in the document and
  last in the record.\<close>

theorem headings_sorted_by_level_witness:
  "extract_structured_content sample_world sample_scraper ''https://example.com/'' sample_html
     = Inr (Some sample_page)
   \<and> headings sample_page = sort_key fst [(2, ''Second''), (1, ''First'')]
   \<and> headings sample_page = [(1, ''First''), (2, ''Second'')]"
proof -
  have d: "headings_in_document_order sample_article = [(2, ''Second''), (1, ''First'')]"
    by code_simp
  have "headings sample_page = sort_key fst (headings_in_document_order sample_article)"
    using headings_sorted_by_level [OF sample_extract] by (simp add: sample_main)
  with d sample_extract show ?thesis
    by (simp add: sample_page_def)
qed

text \<open>Claim C5 as stated fails on the sample page: the record lists the \<^verbatim>\<open>h1\<close> before the
  \<^verbatim>\<open>h2\<close> that precedes it in the document.\<close>

theorem headings_not_in_document_order:
  "extract_structured_content sample_world sample_scraper ''https://example.com/'' sample_html
     = Inr (Some sample_page)
   \<and> find_main_content (strip_boilerplate sample_scraper (parse_html sample_world sample_html))
     = Some sample_article
   \<and> headings_in_document_order sample_article = [(2, ''Second''), (1, ''First'')]
   \<and> headings sample_page \<noteq> headings_in_document_order sample_article"
proof -
  have d: "headings_in_document_order sample_article = [(2, ''Second''), (1, ''First'')]"
    by code_simp
  with sample_extract sample_main show ?thesis
    by (simp add: sample_page_def)
qed

text \<open>
  Claim C6, as the code has it. A paragraph, list item, block quote or preformatted
  element below the main-content node has its block in \<^verbatim>\<open>content_blocks\<close> exactly when its
  stripped text is longer than 10 characters (at least 11).
\<close>

theorem content_block_kept_iff:
  assumes "extract_structured_content w s url html_content = Inr (Some sc)"
    and "find_main_content (strip_boilerplate s (parse_html w html_content)) = Some m"
    and "e \<in> set (find_all m [''p'', ''li'', ''blockquote'', ''pre''])"
  shows "(tag_name e, get_text e) \<in> set (content_blocks sc) \<longleftrightarrow> 10 < length (get_text e)"
proof -
  from assms(1,2) have "content_blocks sc = collect_blocks m"
    by (auto simp: extract_structured_content_def Let_def split: if_splits sum.splits)
  with assms(3) show ?thesis
    by (auto simp: collect_blocks_def)
qed

text \<open>The theorem on the sample page: the paragraph of eleven characters is kept.\<close>

theorem content_block_kept_iff_witness:
  "(tag_name (Tag ''p'' [] [Text ''0123456789a'']), get_text (Tag ''p'' [] [Text ''0123456789a'']))
      \<in> set (content_blocks sample_page)
   \<and> length (get_text (Tag ''p'' [] [Text ''0123456789a''])) = 11"
proof -
  have e: "Tag ''p'' [] [Text ''0123456789a''] \<in> set (find_all sample_article [''p'', ''li'', ''blockquote'', ''pre''])"
    by code_simp
  have l: "length (get_text (Tag ''p'' [] [Text ''0123456789a''])) = 11"
    by code_simp
  from content_block_kept_iff [OF sample_extract sample_main e] l show ?thesis
    by simp
qed

text \<open>Claim C6 as stated fails on the sample page: the paragraph whose text has exactly
  10 characters is dropped.\<close>

theorem ten_character_block_dropped:
  "Tag ''p'' [] [Text ''0123456789''] \<in> set (find_all sample_article [''p'', ''li'', ''blockquote'', ''pre''])
   \<and> length (get_text (Tag ''p'' [] [Text ''0123456789''])) = 10
   \<and> (tag_name (Tag ''p'' [] [Text ''0123456789'']), get_text (Tag ''p'' [] [Text ''0123456789'']))
      \<notin> set (content_blocks sample_page)
   \<and> extract_structured_content sample_world sample_scraper ''https://example.com/'' sample_html
     = Inr (Some sample_page)
   \<and> find_main_content (strip_boilerplate sample_scraper (parse_html sample_world sample_html))
     = Some sample_article"
proof -
  have "Tag ''p'' [] [Text ''0123456789''] \<in> set (find_all sample_article [''p'', ''li'', ''blockquote'', ''pre''])"
    by code_simp
  moreover have "length (get_text (Tag ''p'' [] [Text ''0123456789''])) = 10"
    by code_simp
  moreover have "(tag_name (Tag ''p'' [] [Text ''0123456789'']), get_text (Tag ''p'' [] [Text ''0123456789'']))
      \<notin> set (content_blocks sample_page)"
    by code_simp
  ultimately show ?thesis
    using sample_extract sample_main by simp
qed

section \<open>Extraction never raising\<close>

text \<open>The extractor raises exactly on a page with a \<^verbatim>\<open>title\<close> tag whose \<^verbatim>\<open>.string\<close> is
  \<^verbatim>\<open>None\<close> (no child, several children, or a single child tag of that kind); a page
  without a \<^verbatim>\<open>title\<close> tag gets the title \<^verbatim>\<open>No Title\<close>.\<close>

lemma extract_raises_iff:
  "extract_structured_content w s url html_content = Inl err \<longleftrightarrow>
     html_content \<noteq> [] \<and>
     (\<exists>t. find_first (parse_html w html_content) ''title'' = Some t \<and> node_string t = None)"
  by (cases err)
     (auto simp: extract_structured_content_def page_title_def Let_def
       split: option.splits sum.splits)

lemma missing_title_fallback:
  assumes "html_content \<noteq> []" "find_first (parse_html w html_content) ''title'' = None"
  shows "\<exists>sc. extract_structured_content w s url html_content = Inr (Some sc) \<and> title sc = ''No Title''"
  using assms by (simp add: extract_structured_content_def page_title_def Let_def)

text \<open>Without a match of a content selector and without a \<^verbatim>\<open>div\<close>, the main content is
  the body.\<close>

lemma body_fallback:
  assumes "first_selected soup content_selectors = None" and "find_all soup [''div''] = []"
  shows "find_main_content soup = find_first soup ''body''"
  using assms by (simp add: find_main_content_def py_max_def)

text \<open>
  Claim C2 fails on the code. On the page with the empty \<^verbatim>\<open>title\<close> tag,
  \<^verbatim>\<open>soup.title.string\<close> is \<^verbatim>\<open>None\<close> and \<^verbatim>\<open>.strip()\<close> raises \<^verbatim>\<open>AttributeError\<close>: the extractor
  returns no record, and the exception leaves the crawl loop, which has no handler
  around the extractor.
\<close>

theorem empty_title_raises:
  "extract_structured_content empty_title_world sample_scraper ''https://example.com/'' empty_title_html
     = Inl AttributeError
   \<and> scrape_iteration empty_title_world ''https://example.com/'' (sample_scraper, [])
     = Inl AttributeError"
  by code_simp

section \<open>One crawl step\<close>

text \<open>How the two links of the scenario are resolved and judged.\<close>

lemma example_links:
  "urljoin ''https://example.com/'' ''/about'' = ''https://example.com/about''
   \<and> urljoin ''https://example.com/'' ''https://other.com/x'' = ''https://other.com/x''
   \<and> is_valid_url (init_scraper ''https://example.com/'' ''scraped_data'' ''downloaded_docs'')
        ''https://example.com/about''
   \<and> \<not> is_valid_url (init_scraper ''https://example.com/'' ''scraped_data'' ''downloaded_docs'')
        ''https://other.com/x''"
  by code_simp

text \<open>
  Claim C9. The crawl starts at \<^verbatim>\<open>https://example.com/\<close>, its only pending URL; the page
  links to \<^verbatim>\<open>/about\<close> and to \<^verbatim>\<open>https://other.com/x\<close>. After the iteration of the loop that
  takes the start URL, the pending set is exactly \<^verbatim>\<open>https://example.com/about\<close>, in
  whichever order the page has the two links: the relative link is resolved against the
  page URL and is valid, the link to the other site is not.
\<close>

theorem example_crawl_step:
  "found_urls (init_scraper ''https://example.com/'' ''scraped_data'' ''downloaded_docs'')
     = {''https://example.com/''}
   \<and> pending_after (scrape_iteration two_links_world ''https://example.com/''
        (init_scraper ''https://example.com/'' ''scraped_data'' ''downloaded_docs'', []))
     = Some {''https://example.com/about''}
   \<and> pending_after (scrape_iteration links_reversed_world ''https://example.com/''
        (init_scraper ''https://example.com/'' ''scraped_data'' ''downloaded_docs'', []))
     = Some {''https://example.com/about''}"
  by code_simp

section \<open>Page artifacts\<close>
















section \<open>The name of a downloaded document\<close>

text \<open>
  Claim C7, as the code has it. The file name of a download is (a) the base name of the
  URL path if it is not empty and contains a dot; else (b) the file name parsed from
  the \<^verbatim>\<open>Content-Disposition\<close> header if that name contains a dot; else (c)
  \<^verbatim>\<open>document_<n>\<close> with \<open>n\<close> one more than the number of documents downloaded so far,
  followed by the extension that the MIME table gives for the declared content type,
  or by \<^verbatim>\<open>.bin\<close> when the table has none. A header name without a dot is not used.
\<close>

theorem resolve_filename_order:
  "(has_extension (basename (url_path (urlparse url)))
      \<longrightarrow> resolve_filename w s url r = basename (url_path (urlparse url)))
   \<and> (\<not> has_extension (basename (url_path (urlparse url)))
        \<and> disposition_filename r = Some fname \<and> has_extension fname
      \<longrightarrow> resolve_filename w s url r = fname)
   \<and> (\<not> has_extension (basename (url_path (urlparse url)))
        \<and> (disposition_filename r = None
            \<or> (\<exists>fname. disposition_filename r = Some fname \<and> \<not> has_extension fname))
      \<longrightarrow> resolve_filename w s url r
          = ''document_'' @ str_nat (length (downloaded_docs s) + 1)
            @ (case guess_extension w (declared_content_type r) of
                 None \<Rightarrow> ''.bin''
               | Some extension \<Rightarrow> if extension = [] then ''.bin'' else extension))"
  by (auto simp: resolve_filename_def generated_filename_def disposition_filename_def
      declared_content_type_def Let_def split: option.splits)

text \<open>The theorem on four downloads: a URL with a file name, the header of the scenario
  on \<^verbatim>\<open>https://example.com/file\<close>, and the same URL with a known and with an unknown
  content type.\<close>

theorem resolve_filename_order_witness:
  "resolve_filename sample_world sample_scraper ''https://example.com/files/report.final.pdf?v=2''
       (typed_response ''application/pdf'') = ''report.final.pdf''
   \<and> resolve_filename sample_world sample_scraper ''https://example.com/file''
       (named_response (''attachment; filename='' @ quoted ''report.pdf'') ''application/octet-stream'')
     = ''report.pdf''
   \<and> resolve_filename sample_world sample_scraper ''https://example.com/file''
       (typed_response ''application/pdf; charset=binary'') = ''document_1.pdf''
   \<and> resolve_filename sample_world sample_scraper ''https://example.com/file''
       (typed_response ''application/x-unknown'') = ''document_1.bin''"
proof -
  let ?r1 = "typed_response ''application/pdf''"
  let ?r2 = "named_response (''attachment; filename='' @ quoted ''report.pdf'') ''application/octet-stream''"
  let ?r3 = "typed_response ''application/pdf; charset=binary''"
  let ?r4 = "typed_response ''application/x-unknown''"
  have a: "has_extension (basename (url_path (urlparse ''https://example.com/files/report.final.pdf?v=2'')))"
    "basename (url_path (urlparse ''https://example.com/files/report.final.pdf?v=2'')) = ''report.final.pdf''"
    by code_simp+
  have n: "\<not> has_extension (basename (url_path (urlparse ''https://example.com/file'')))"
    by code_simp
  have b: "disposition_filename ?r2 = Some ''report.pdf''" "has_extension ''report.pdf''"
    by code_simp+
  have c3: "disposition_filename ?r3 = None"
    "''document_'' @ str_nat (length (downloaded_docs sample_scraper) + 1)
       @ (case guess_extension sample_world (declared_content_type ?r3) of
            None \<Rightarrow> ''.bin'' | Some extension \<Rightarrow> if extension = [] then ''.bin'' else extension)
     = ''document_1.pdf''"
    by code_simp+
  have c4: "disposition_filename ?r4 = None"
    "''document_'' @ str_nat (length (downloaded_docs sample_scraper) + 1)
       @ (case guess_extension sample_world (declared_content_type ?r4) of
            None \<Rightarrow> ''.bin'' | Some extension \<Rightarrow> if extension = [] then ''.bin'' else extension)
     = ''document_1.bin''"
    by code_simp+
  from a resolve_filename_order [of "''https://example.com/files/report.final.pdf?v=2''" sample_world sample_scraper ?r1]
  have 1: "resolve_filename sample_world sample_scraper ''https://example.com/files/report.final.pdf?v=2'' ?r1
      = ''report.final.pdf''"
    by simp
  from n b resolve_filename_order [of "''https://example.com/file''" sample_world sample_scraper ?r2 "''report.pdf''"]
  have 2: "resolve_filename sample_world sample_scraper ''https://example.com/file'' ?r2 = ''report.pdf''"
    by simp
  from n c3 resolve_filename_order [of "''https://example.com/file''" sample_world sample_scraper ?r3]
  have 3: "resolve_filename sample_world sample_scraper ''https://example.com/file'' ?r3 = ''document_1.pdf''"
    by simp
  from n c4 resolve_filename_order [of "''https://example.com/file''" sample_world sample_scraper ?r4]
  have 4: "resolve_filename sample_world sample_scraper ''https://example.com/file'' ?r4 = ''document_1.bin''"
    by simp
  from 1 2 3 4 show ?thesis
    by simp
qed

text \<open>Claim C7 as stated fails: the header gives the name \<^verbatim>\<open>report\<close>, the URL has none,
  and the download is named \<^verbatim>\<open>document_1.pdf\<close>.\<close>

theorem dotless_header_name_not_used:
  "\<not> has_extension (basename (url_path (urlparse ''https://example.com/file'')))
   \<and> disposition_filename (named_response (''attachment; filename='' @ quoted ''report'') ''application/pdf'')
      = Some ''report''
   \<and> resolve_filename sample_world sample_scraper ''https://example.com/file''
        (named_response (''attachment; filename='' @ quoted ''report'') ''application/pdf'')
      = ''document_1.pdf''"
  by code_simp

section \<open>Downloads and existing files\<close>

lemma free_path_free: "\<not> file_exists fs (free_path fs folder base ext file_path counter)"
  by (induction fs folder base ext file_path counter rule: free_path.induct)
     (subst free_path.simps, simp)

lemma unique_path_free: "\<not> file_exists fs (unique_path fs folder filename)"
  by (simp add: unique_path_def Let_def free_path_free)

text \<open>The path chosen is the plain one when it is free; otherwise it is the first free
  one among \<open>base_1.ext\<close>, \<open>base_2.ext\<close>, and so on.\<close>

lemma free_path_shape:
  "file_exists fs file_path \<Longrightarrow>
     \<exists>k \<ge> counter. free_path fs folder base ext file_path counter = numbered_path folder base ext k
       \<and> (\<forall>j. counter \<le> j \<and> j < k \<longrightarrow> file_exists fs (numbered_path folder base ext j))"
proof (induction fs folder base ext file_path counter rule: free_path.induct)
  case (1 fs folder base ext file_path counter)
  let ?next = "numbered_path folder base ext counter"
  from "1.prems" have unfold: "free_path fs folder base ext file_path counter
      = free_path fs folder base ext ?next (Suc counter)"
    by (subst free_path.simps) simp
  show ?case
  proof (cases "file_exists fs ?next")
    case False
    then have "free_path fs folder base ext ?next (Suc counter) = ?next"
      by (subst free_path.simps) simp
    with unfold show ?thesis
      by (intro exI [of _ counter]) auto
  next
    case True
    from "1.IH" [OF "1.prems" True] obtain k where
      k: "Suc counter \<le> k"
      and r: "free_path fs folder base ext ?next (Suc counter) = numbered_path folder base ext k"
      and ex: "\<forall>j. Suc counter \<le> j \<and> j < k \<longrightarrow> file_exists fs (numbered_path folder base ext j)"
      by blast
    have "\<forall>j. counter \<le> j \<and> j < k \<longrightarrow> file_exists fs (numbered_path folder base ext j)"
    proof (intro allI impI)
      fix j
      assume "counter \<le> j \<and> j < k"
      then have "j = counter \<or> (Suc counter \<le> j \<and> j < k)"
        by arith
      with True ex show "file_exists fs (numbered_path folder base ext j)"
        by blast
    qed
    with k r unfold show ?thesis
      by (intro exI [of _ k]) simp
  qed
qed

lemma unique_path_shape:
  "(\<not> file_exists fs (path_join folder filename)
      \<and> unique_path fs folder filename = path_join folder filename)
   \<or> (file_exists fs (path_join folder filename)
      \<and> (\<exists>k \<ge> 1. unique_path fs folder filename
            = numbered_path folder (fst (splitext filename)) (snd (splitext filename)) k
          \<and> (\<forall>j. 1 \<le> j \<and> j < k \<longrightarrow>
                file_exists fs (numbered_path folder (fst (splitext filename)) (snd (splitext filename)) j))))"
proof (cases "file_exists fs (path_join folder filename)")
  case False
  then show ?thesis
    by (simp add: unique_path_def)
next
  case True
  from free_path_shape [OF True, of 1 folder "fst (splitext filename)" "snd (splitext filename)"] True
  show ?thesis
    by (simp add: unique_path_def)
qed

lemma download_document_fails:
  "\<not> download_succeeds w url \<Longrightarrow> download_document w s fs url = (s, fs, None)"
  by (auto simp: download_succeeds_def download_document_def split: option.splits)

lemma download_document_writes:
  assumes "download_succeeds w url"
  shows "\<exists>s' file_path data.
           download_document w s fs url
             = (s', (file_path, Document_bytes data) # fs, Some (abspath w file_path))
           \<and> \<not> file_exists fs file_path"
  using assms
  by (auto simp: download_succeeds_def download_document_def Let_def write_file_def
      unique_path_free split: option.splits)

lemma file_exists_Cons: "file_exists ((p, a) # fs) q \<longleftrightarrow> q = p \<or> file_exists fs q"
  by (auto simp: file_exists_def)

text \<open>Downloads one after the other: each success adds one file, at a path that was
  free.\<close>

lemma downloads_add_new_files:
  "\<exists>new. snd (download_documents w s fs urls) = new @ fs
     \<and> length new = length (filter (download_succeeds w) urls)
     \<and> distinct (map fst new)
     \<and> (\<forall>p \<in> set (map fst new). \<not> file_exists fs p)"
proof (induction urls arbitrary: s fs)
  case Nil
  show ?case by simp
next
  case (Cons url urls)
  show ?case
  proof (cases "download_succeeds w url")
    case False
    with Cons [of s fs] show ?thesis
      by (simp add: download_document_fails)
  next
    case True
    from download_document_writes [OF True, of s fs]
    obtain s' file_path data where
      d: "download_document w s fs url
            = (s', (file_path, Document_bytes data) # fs, Some (abspath w file_path))"
      and free: "\<not> file_exists fs file_path"
      by blast
    from Cons [of s' "(file_path, Document_bytes data) # fs"]
    obtain new where
      n: "snd (download_documents w s' ((file_path, Document_bytes data) # fs) urls)
            = new @ (file_path, Document_bytes data) # fs"
      and len: "length new = length (filter (download_succeeds w) urls)"
      and dist: "distinct (map fst new)"
      and nex: "\<forall>p \<in> set (map fst new). \<not> file_exists ((file_path, Document_bytes data) # fs) p"
      by blast
    let ?new = "new @ [(file_path, Document_bytes data)]"
    from n d have "snd (download_documents w s fs (url # urls)) = ?new @ fs"
      by simp
    moreover from len True have "length ?new = length (filter (download_succeeds w) (url # urls))"
      by simp
    moreover from dist nex have "distinct (map fst ?new)"
      by (auto simp: file_exists_Cons)
    moreover from nex free have "\<forall>p \<in> set (map fst ?new). \<not> file_exists fs p"
      by (auto simp: file_exists_Cons)
    ultimately show ?thesis
      by blast
  qed
qed

text \<open>
  Claim C8. Downloading a list of documents one after the other adds one file for each
  download that succeeds and changes no file that was there: the new paths differ from
  one another and from every path that existed before. So \<open>N\<close> downloads that resolve to
  the same file name give \<open>N\<close> different paths. The path of a download is free; it is
  the plain path when that is free, and otherwise \<open>base_k.ext\<close> for the least \<open>k\<close> from
  1 on whose path is free. (The loop that finds the free path is the same in
  \<^verbatim>\<open>web_scrapper.py\<close>.)
\<close>

theorem downloads_never_overwrite:
  "(\<exists>new. snd (download_documents w s fs urls) = new @ fs
      \<and> length new = length (filter (download_succeeds w) urls)
      \<and> distinct (map fst new)
      \<and> (\<forall>p \<in> set (map fst new). \<not> file_exists fs p))
   \<and> \<not> file_exists fs (unique_path fs folder filename)
   \<and> ((\<not> file_exists fs (path_join folder filename)
         \<and> unique_path fs folder filename = path_join folder filename)
      \<or> (file_exists fs (path_join folder filename)
         \<and> (\<exists>k \<ge> 1. unique_path fs folder filename
               = numbered_path folder (fst (splitext filename)) (snd (splitext filename)) k
             \<and> (\<forall>j. 1 \<le> j \<and> j < k \<longrightarrow>
                   file_exists fs
                     (numbered_path folder (fst (splitext filename)) (snd (splitext filename)) j)))))"
proof (intro conjI)
  show "\<exists>new. snd (download_documents w s fs urls) = new @ fs
      \<and> length new = length (filter (download_succeeds w) urls)
      \<and> distinct (map fst new)
      \<and> (\<forall>p \<in> set (map fst new). \<not> file_exists fs p)"
    by (rule downloads_add_new_files)
  show "\<not> file_exists fs (unique_path fs folder filename)"
    by (rule unique_path_free)
  show "(\<not> file_exists fs (path_join folder filename)
         \<and> unique_path fs folder filename = path_join folder filename)
      \<or> (file_exists fs (path_join folder filename)
         \<and> (\<exists>k \<ge> 1. unique_path fs folder filename
               = numbered_path folder (fst (splitext filename)) (snd (splitext filename)) k
             \<and> (\<forall>j. 1 \<le> j \<and> j < k \<longrightarrow>
                   file_exists fs
                     (numbered_path folder (fst (splitext filename)) (snd (splitext filename)) j))))"
    by (rule unique_path_shape)
qed

text \<open>The theorem on three documents named \<^verbatim>\<open>report.pdf\<close> and a folder that holds a
  \<^verbatim>\<open>report.pdf\<close> already.\<close>

theorem downloads_never_overwrite_witness:
  "map fst (snd (download_documents reports_world sample_scraper
       [(''downloaded_docs/report.pdf'', Document_bytes ''old'')] report_urls))
     = [''downloaded_docs/report_3.pdf'', ''downloaded_docs/report_2.pdf'',
        ''downloaded_docs/report_1.pdf'', ''downloaded_docs/report.pdf'']
   \<and> (\<exists>new. snd (download_documents reports_world sample_scraper
           [(''downloaded_docs/report.pdf'', Document_bytes ''old'')] report_urls)
         = new @ [(''downloaded_docs/report.pdf'', Document_bytes ''old'')]
       \<and> length new = 3 \<and> distinct (map fst new)
       \<and> ''downloaded_docs/report.pdf'' \<notin> set (map fst new))
   \<and> unique_path [(''downloaded_docs/report.pdf'', Document_bytes ''old'')] ''downloaded_docs''
       ''report.pdf'' = ''downloaded_docs/report_1.pdf''"
proof -
  let ?fs = "[(''downloaded_docs/report.pdf'', Document_bytes ''old'')]"
  have e: "map fst (snd (download_documents reports_world sample_scraper ?fs report_urls))
     = [''downloaded_docs/report_3.pdf'', ''downloaded_docs/report_2.pdf'',
        ''downloaded_docs/report_1.pdf'', ''downloaded_docs/report.pdf'']"
    by code_simp
  have l: "length (filter (download_succeeds reports_world) report_urls) = 3"
    by code_simp
  have x: "file_exists ?fs ''downloaded_docs/report.pdf''"
    by code_simp
  from downloads_never_overwrite [of reports_world sample_scraper ?fs report_urls]
  obtain new where
    "snd (download_documents reports_world sample_scraper ?fs report_urls) = new @ ?fs"
    "length new = length (filter (download_succeeds reports_world) report_urls)"
    "distinct (map fst new)"
    "\<forall>p \<in> set (map fst new). \<not> file_exists ?fs p"
    by blast
  with l x have "snd (download_documents reports_world sample_scraper ?fs report_urls) = new @ ?fs
       \<and> length new = 3 \<and> distinct (map fst new)
       \<and> ''downloaded_docs/report.pdf'' \<notin> set (map fst new)"
    by auto
  moreover have "unique_path ?fs ''downloaded_docs'' ''report.pdf'' = ''downloaded_docs/report_1.pdf''"
    by code_simp
  ultimately show ?thesis
    using e by blast
qed

section \<open>The frontier during a crawl\<close>

lemma reaches_steps:
  "reaches w c0 c \<Longrightarrow> scrape_steps w choices c = Some c' \<Longrightarrow> reaches w c0 c'"
proof (induction choices arbitrary: c)
  case Nil
  then show ?case by simp
next
  case (Cons choice choices)
  from Cons.prems(2) obtain c1 where
    c1: "scrape_step w choice c = Some c1" and rest: "scrape_steps w choices c1 = Some c'"
    by (auto split: option.splits)
  from Cons.prems(1) c1 have "reaches w c0 c1"
    by (rule reaches.step)
  then show ?case
    using rest by (rule Cons.IH)
qed

lemma reaches_trans: "reaches w c1 c2 \<Longrightarrow> reaches w c0 c1 \<Longrightarrow> reaches w c0 c2"
  by (induction rule: reaches.induct) (auto intro: reaches.step)

text \<open>Only \<^verbatim>\<open>pop\<close>, \<^verbatim>\<open>self.visited_urls.add\<close> and the insertion of \<^verbatim>\<open>extract_urls\<close> change the
  two sets.\<close>

lemma download_document_frontier:
  "download_document w s fs url = (s', fs', r)
     \<Longrightarrow> visited_urls s' = visited_urls s \<and> found_urls s' = found_urls s"
  by (auto simp: download_document_def Let_def split: option.splits if_splits)

lemma save_structured_content_frontier:
  "save_structured_content w s fs sc = (s', fs')
     \<Longrightarrow> visited_urls s' = visited_urls s \<and> found_urls s' = found_urls s"
  by (auto simp: save_structured_content_def Let_def)

lemma add_link_visited: "visited_urls (add_link url s href) = visited_urls s"
  by (simp add: add_link_def Let_def)

lemma add_link_found:
  "found_urls (add_link url s href) = found_urls s
   \<or> (found_urls (add_link url s href) = insert (normalize_url (urljoin url href)) (found_urls s)
      \<and> normalize_url (urljoin url href) \<notin> visited_urls s
      \<and> is_valid_url s (normalize_url (urljoin url href)))"
  by (simp add: add_link_def Let_def)

lemma add_link_found_subset:
  "found_urls (add_link url s href) \<subseteq> insert (normalize_url (urljoin url href)) (found_urls s)"
  using add_link_found [of url s href] by auto

lemma frontier_ok_step:
  assumes "frontier_ok c" and "scrape_step w choice c = Some c'"
  shows "frontier_ok c'"
proof -
  obtain pt s fs where c: "c = (pt, s, fs)"
    by (cases c)
  show ?thesis
  proof (cases pt)
    case Loop_head
    with assms c show ?thesis
      by (auto simp: frontier_ok_def split: if_splits)
  next
    case (Popped url)
    with assms c show ?thesis
      by (auto simp: frontier_ok_def split: if_splits)
  next
    case (Marked url)
    with assms c show ?thesis
      by (auto simp: frontier_ok_def split: if_splits option.splits prod.splits
          dest!: download_document_frontier)
  next
    case (Extracting url html hs)
    show ?thesis
    proof (cases hs)
      case Nil
      with Extracting assms c show ?thesis
        by (auto simp: frontier_ok_def split: sum.splits option.splits prod.splits
            dest!: save_structured_content_frontier)
    next
      case (Cons href rest)
      with Extracting assms c add_link_found [of url s href] show ?thesis
        by (auto simp: frontier_ok_def add_link_visited)
    qed
  next
    case Finished
    with assms c show ?thesis by simp
  next
    case (Raised err)
    with assms c show ?thesis by simp
  qed
qed

lemma frontier_ok_reaches: "reaches w c0 c \<Longrightarrow> frontier_ok c0 \<Longrightarrow> frontier_ok c"
  by (induction rule: reaches.induct) (auto intro: frontier_ok_step)

lemma frontier_ok_init: "frontier_ok (Loop_head, init_scraper start output docs, fs)"
  by (simp add: frontier_ok_def init_scraper_def)

lemma visited_step:
  assumes "scrape_step w choice (pt, s, fs) = Some (pt', s', fs')"
  shows "visited_urls s \<subseteq> visited_urls s'"
proof (cases pt)
  case (Extracting url html hs)
  with assms show ?thesis
    by (cases hs)
       (auto simp: add_link_visited split: sum.splits option.splits prod.splits
         dest!: save_structured_content_frontier)
qed (use assms in \<open>auto split: if_splits option.splits prod.splits dest!: download_document_frontier\<close>)

lemma visited_reaches:
  "reaches w c0 c \<Longrightarrow> visited_urls (fst (snd c0)) \<subseteq> visited_urls (fst (snd c))"
proof (induction rule: reaches.induct)
  case start
  show ?case by simp
next
  case (step c choice c')
  from step.hyps(2) have "visited_urls (fst (snd c)) \<subseteq> visited_urls (fst (snd c'))"
    using visited_step [of w choice "fst c" "fst (snd c)" "snd (snd c)" "fst c'" "fst (snd c')" "snd (snd c')"]
    by simp
  with step.IH show ?case by blast
qed

lemma found_step:
  assumes "scrape_step w choice (pt, s, fs) = Some (pt', s', fs')"
    and "x \<in> found_urls s'" and "x \<notin> found_urls s"
  shows "x \<notin> visited_urls s
    \<and> (\<exists>url html href rest. pt = Extracting url html (href # rest)
          \<and> x = normalize_url (urljoin url href))"
proof (cases pt)
  case (Extracting url html hs)
  show ?thesis
  proof (cases hs)
    case Nil
    with Extracting assms show ?thesis
      by (auto split: sum.splits option.splits prod.splits dest!: save_structured_content_frontier)
  next
    case (Cons href rest)
    with Extracting assms add_link_found [of url s href] show ?thesis
      by auto
  qed
qed (use assms in \<open>auto split: if_splits option.splits prod.splits dest!: download_document_frontier\<close>)

lemma enqueued_once:
  assumes "normalize_url (urljoin url h1) = normalize_url (urljoin url h2)"
  shows "card (found_urls (add_link url (add_link url s h1) h2) - found_urls s) \<le> 1"
proof -
  let ?x = "normalize_url (urljoin url h1)"
  have "found_urls (add_link url (add_link url s h1) h2) \<subseteq> insert ?x (found_urls s)"
    using add_link_found_subset [of url "add_link url s h1" h2] add_link_found_subset [of url s h1] assms
    by auto
  then have "found_urls (add_link url (add_link url s h1) h2) - found_urls s \<subseteq> {?x}"
    by auto
  then have "card (found_urls (add_link url (add_link url s h1) h2) - found_urls s) \<le> card {?x}"
    by (intro card_mono) auto
  then show ?thesis by simp
qed

text \<open>
  Claim C1. At every point that a crawl reaches from its start, the visited set and the
  pending set are disjoint; from any such point on the visited set only grows; a step
  puts a URL into the pending set only inside the loop of \<^verbatim>\<open>extract_urls\<close>, the URL is
  the normalised form of the link at hand, and it is not in the visited set; and two
  links with the same normalised form add at most one member to the pending set.
\<close>

theorem frontier_invariant:
  assumes "reaches w (Loop_head, init_scraper start output docs, fs0) (pt, s, fs)"
    and "reaches w (pt, s, fs) (pt', s', fs')"
  shows "visited_urls s \<inter> found_urls s = {}
    \<and> visited_urls s \<subseteq> visited_urls s'
    \<and> (\<forall>choice pt2 s2 fs2 x.
          scrape_step w choice (pt, s, fs) = Some (pt2, s2, fs2)
            \<and> x \<in> found_urls s2 \<and> x \<notin> found_urls s
          \<longrightarrow> x \<notin> visited_urls s
              \<and> (\<exists>url html href rest. pt = Extracting url html (href # rest)
                    \<and> x = normalize_url (urljoin url href)))
    \<and> (\<forall>url h1 h2. normalize_url (urljoin url h1) = normalize_url (urljoin url h2)
          \<longrightarrow> card (found_urls (add_link url (add_link url s h1) h2) - found_urls s) \<le> 1)"
proof -
  from frontier_ok_reaches [OF assms(1) frontier_ok_init]
  have "visited_urls s \<inter> found_urls s = {}"
    by (simp add: frontier_ok_def)
  moreover from visited_reaches [OF assms(2)] have "visited_urls s \<subseteq> visited_urls s'"
    by simp
  ultimately show ?thesis
    using found_step [of w _ pt s fs] enqueued_once [of _ _ _ s] by blast
qed

text \<open>The theorem on the crawl of the scenario page, at the point after the first link
  was looked at: the start URL is visited, \<^verbatim>\<open>https://example.com/about\<close> is pending.\<close>

theorem frontier_invariant_witness:
  "visited_urls (add_link ''https://example.com/''
       ((init_scraper ''https://example.com/'' ''scraped_data'' ''downloaded_docs'')
          \<lparr>found_urls := {}, visited_urls := {''https://example.com/''}\<rparr>) ''/about'')
     \<inter> found_urls (add_link ''https://example.com/''
       ((init_scraper ''https://example.com/'' ''scraped_data'' ''downloaded_docs'')
          \<lparr>found_urls := {}, visited_urls := {''https://example.com/''}\<rparr>) ''/about'') = {}
   \<and> found_urls (add_link ''https://example.com/''
       ((init_scraper ''https://example.com/'' ''scraped_data'' ''downloaded_docs'')
          \<lparr>found_urls := {}, visited_urls := {''https://example.com/''}\<rparr>) ''/about'')
     = {''https://example.com/about''}
   \<and> visited_urls (add_link ''https://example.com/''
       ((init_scraper ''https://example.com/'' ''scraped_data'' ''downloaded_docs'')
          \<lparr>found_urls := {}, visited_urls := {''https://example.com/''}\<rparr>) ''/about'')
     = {''https://example.com/''}"
proof -
  let ?s0 = "init_scraper ''https://example.com/'' ''scraped_data'' ''downloaded_docs''"
  let ?s2 = "?s0\<lparr>found_urls := {}, visited_urls := {''https://example.com/''}\<rparr>"
  let ?u = "''https://example.com/''"
  let ?c0 = "(Loop_head, ?s0, [])"
  have run: "scrape_steps two_links_world [?u, ?u, ?u, ?u] ?c0
    = Some (Extracting ?u two_links_html [''https://other.com/x''], add_link ?u ?s2 ''/about'', [])"
    by code_simp
  have r: "reaches two_links_world ?c0
      (Extracting ?u two_links_html [''https://other.com/x''], add_link ?u ?s2 ''/about'', [])"
    by (rule reaches_steps [OF reaches.start run])
  have f: "found_urls (add_link ?u ?s2 ''/about'') = {''https://example.com/about''}"
    by code_simp
  have v: "visited_urls (add_link ?u ?s2 ''/about'') = {''https://example.com/''}"
    by code_simp
  from frontier_invariant [OF r reaches.start] f v show ?thesis
    by simp
qed

text \<open>The body of the loop, \<open>scrape_iteration\<close>, is a run of single steps from one loop
  head to the next (or to the exception).\<close>

lemma extracting_links:
  "reaches w c0 (Extracting url html hs, s, fs)
     \<Longrightarrow> reaches w c0 (Extracting url html [], foldl (add_link url) s hs, fs)"
proof (induction hs arbitrary: s)
  case Nil
  then show ?case by simp
next
  case (Cons href rest)
  have "scrape_step w [] (Extracting url html (href # rest), s, fs)
      = Some (Extracting url html rest, add_link url s href, fs)"
    by simp
  with Cons.prems have "reaches w c0 (Extracting url html rest, add_link url s href, fs)"
    by (rule reaches.step)
  then show ?case
    using Cons.IH by simp
qed

lemma iteration_reaches:
  assumes "url \<in> found_urls s"
  shows "case scrape_iteration w url (s, fs) of
           Inr (s', fs') \<Rightarrow> reaches w (Loop_head, s, fs) (Loop_head, s', fs')
         | Inl err \<Rightarrow> (\<exists>s'. reaches w (Loop_head, s, fs) (Raised err, s', fs))"
proof -
  let ?c0 = "(Loop_head, s, fs)"
  let ?s1 = "s\<lparr>found_urls := found_urls s - {url}\<rparr>"
  let ?s2 = "?s1\<lparr>visited_urls := insert url (visited_urls ?s1)\<rparr>"
  from assms have "scrape_step w url ?c0 = Some (Popped url, ?s1, fs)"
    by auto
  with reaches.start [of w ?c0] have r1: "reaches w ?c0 (Popped url, ?s1, fs)"
    by (rule reaches.step)
  show ?thesis
  proof (cases "url \<in> visited_urls s")
    case True
    then have "scrape_step w url (Popped url, ?s1, fs) = Some (Loop_head, ?s1, fs)"
      by simp
    with r1 have "reaches w ?c0 (Loop_head, ?s1, fs)"
      by (rule reaches.step)
    with True show ?thesis
      by (simp add: scrape_iteration_def)
  next
    case False
    then have "scrape_step w url (Popped url, ?s1, fs) = Some (Marked url, ?s2, fs)"
      by simp
    with r1 have r2: "reaches w ?c0 (Marked url, ?s2, fs)"
      by (rule reaches.step)
    show ?thesis
    proof (cases "is_document url")
      case True
      obtain s3 fs3 r where d: "download_document w ?s2 fs url = (s3, fs3, r)"
        by (cases "download_document w ?s2 fs url")
      with True have "scrape_step w url (Marked url, ?s2, fs) = Some (Loop_head, s3, fs3)"
        by simp
      with r2 have "reaches w ?c0 (Loop_head, s3, fs3)"
        by (rule reaches.step)
      with True False d show ?thesis
        by (simp add: scrape_iteration_def)
    next
      case nd: False
      show ?thesis
      proof (cases "get_page_content w url")
        case None
        with nd have "scrape_step w url (Marked url, ?s2, fs) = Some (Loop_head, ?s2, fs)"
          by simp
        with r2 have "reaches w ?c0 (Loop_head, ?s2, fs)"
          by (rule reaches.step)
        with None nd False show ?thesis
          by (simp add: scrape_iteration_def)
      next
        case (Some html)
        show ?thesis
        proof (cases "html = []")
          case True
          with Some nd have "scrape_step w url (Marked url, ?s2, fs) = Some (Loop_head, ?s2, fs)"
            by simp
          with r2 have "reaches w ?c0 (Loop_head, ?s2, fs)"
            by (rule reaches.step)
          with True Some nd False show ?thesis
            by (simp add: scrape_iteration_def)
        next
          case ne: False
          let ?s3 = "extract_urls w ?s2 url html"
          from ne Some nd have "scrape_step w url (Marked url, ?s2, fs)
              = Some (Extracting url html (hrefs (parse_html w html)), ?s2, fs)"
            by simp
          with r2 have "reaches w ?c0 (Extracting url html (hrefs (parse_html w html)), ?s2, fs)"
            by (rule reaches.step)
          then have r3: "reaches w ?c0 (Extracting url html [], ?s3, fs)"
            using ne by (simp add: extract_urls_def extracting_links)
          show ?thesis
          proof (cases "extract_structured_content w ?s3 url html")
            case (Inl err)
            then have "scrape_step w url (Extracting url html [], ?s3, fs) = Some (Raised err, ?s3, fs)"
              by simp
            with r3 have "reaches w ?c0 (Raised err, ?s3, fs)"
              by (rule reaches.step)
            with Inl ne Some nd False show ?thesis
              by (auto simp: scrape_iteration_def Let_def)
          next
            case (Inr result)
            show ?thesis
            proof (cases result)
              case None
              with Inr have "scrape_step w url (Extracting url html [], ?s3, fs) = Some (Loop_head, ?s3, fs)"
                by simp
              with r3 have "reaches w ?c0 (Loop_head, ?s3, fs)"
                by (rule reaches.step)
              with None Inr ne Some nd False show ?thesis
                by (simp add: scrape_iteration_def Let_def)
            next
              case (Some sc)
              obtain s4 fs4 where sv: "save_structured_content w ?s3 fs sc = (s4, fs4)"
                by (cases "save_structured_content w ?s3 fs sc")
              with Some Inr have "scrape_step w url (Extracting url html [], ?s3, fs) = Some (Loop_head, s4, fs4)"
                by simp
              with r3 have "reaches w ?c0 (Loop_head, s4, fs4)"
                by (rule reaches.step)
              with sv Some Inr ne \<open>get_page_content w url = Some html\<close> nd False show ?thesis
                by (simp add: scrape_iteration_def Let_def)
            qed
          qed
        qed
      qed
    qed
  qed
qed

section \<open>Determinism of the extraction\<close>

text \<open>Ties: \<open>py_max\<close> returns the first of the elements with the greatest key.\<close>

lemma max_from_append:
  "max_from key best (xs @ ys) = max_from key (max_from key best xs) ys"
  by (induction xs arbitrary: best) simp_all

lemma max_from_decomp:
  "\<exists>pre post. best # xs = pre @ max_from key best xs # post
     \<and> (\<forall>x \<in> set pre. key x < key (max_from key best xs))
     \<and> (\<forall>x \<in> set post. key x \<le> key (max_from key best xs))"
proof (induction xs rule: rev_induct)
  case Nil
  have "[best] = [] @ max_from key best [] # []" by simp
  then show ?case by fastforce
next
  case (snoc y ys)
  let ?m = "max_from key best ys"
  from snoc obtain pre post where d: "best # ys = pre @ ?m # post"
    and lt: "\<forall>x \<in> set pre. key x < key ?m" and le: "\<forall>x \<in> set post. key x \<le> key ?m"
    by blast
  have m: "max_from key best (ys @ [y]) = (if key ?m < key y then y else ?m)"
    by (simp add: max_from_append)
  show ?case
  proof (cases "key ?m < key y")
    case True
    have "\<forall>x \<in> set (best # ys). key x < key y"
      unfolding d using lt le True by auto
    moreover have "best # ys @ [y] = (best # ys) @ y # []"
      by simp
    ultimately show ?thesis
      unfolding m using True
      by (intro exI [of _ "best # ys"] exI [of _ "[]"]) simp
  next
    case False
    have "best # ys @ [y] = pre @ ?m # (post @ [y])"
      using d by simp
    moreover have "\<forall>x \<in> set (post @ [y]). key x \<le> key ?m"
      using le False by auto
    ultimately show ?thesis
      unfolding m using False lt
      by (intro exI [of _ pre] exI [of _ "post @ [y]"]) simp
  qed
qed

lemma find_first_holds:
  "\<forall>x \<in> set pre. \<not> P x \<Longrightarrow> P m \<Longrightarrow> List.find P (pre @ m # post) = Some m"
  by (induction pre) simp_all

lemma py_max_first_maximal: "py_max key xs = first_maximal key xs"
proof (cases xs)
  case Nil
  then show ?thesis
    by (simp add: py_max_def first_maximal_def)
next
  case (Cons b rest)
  let ?m = "max_from key b rest"
  from max_from_decomp [of b rest key] obtain pre post where d: "b # rest = pre @ ?m # post"
    and lt: "\<forall>x \<in> set pre. key x < key ?m" and le: "\<forall>x \<in> set post. key x \<le> key ?m"
    by blast
  let ?P = "\<lambda>x. list_all (\<lambda>y. key y \<le> key x) (pre @ ?m # post)"
  have "\<forall>x \<in> set pre. \<not> ?P x"
    using lt by (auto simp: list_all_iff)
  moreover have "?P ?m"
    using lt le by (auto simp: list_all_iff intro: less_imp_le)
  ultimately have "List.find ?P (pre @ ?m # post) = Some ?m"
    by (rule find_first_holds)
  then have "first_maximal key (b # rest) = Some ?m"
    unfolding first_maximal_def d .
  then show ?thesis
    unfolding Cons by (simp add: py_max_def)
qed

lemma first_maximal_Some: "xs \<noteq> [] \<Longrightarrow> \<exists>m. first_maximal key xs = Some m"
  unfolding py_max_first_maximal [symmetric] by (cases xs) (simp_all add: py_max_def)

lemma first_selected_find:
  "first_selected soup selectors =
     (case List.find (\<lambda>selector. select soup selector \<noteq> []) selectors of
        None \<Rightarrow> None
      | Some selector \<Rightarrow> first_maximal (\<lambda>x. length (get_text x)) (select soup selector))"
proof (induction selectors)
  case Nil
  show ?case by simp
next
  case (Cons a selectors)
  then show ?case
    by (cases "select soup a") (simp_all add: py_max_first_maximal)
qed

lemma find_main_content_first_maximal:
  "find_main_content soup =
     (case List.find (\<lambda>selector. select soup selector \<noteq> []) content_selectors of
        Some selector \<Rightarrow> first_maximal (\<lambda>x. length (get_text x)) (select soup selector)
      | None \<Rightarrow>
          (case first_maximal (\<lambda>x. length (get_text x)) (find_all soup [''div'']) of
             Some d \<Rightarrow> Some d
           | None \<Rightarrow> find_first soup ''body''))"
proof (cases "List.find (\<lambda>selector. select soup selector \<noteq> []) content_selectors")
  case None
  then show ?thesis
    by (simp add: find_main_content_def first_selected_find py_max_first_maximal)
next
  case (Some selector)
  then have "select soup selector \<noteq> []"
    by (auto simp: find_Some_iff)
  from first_maximal_Some [OF this] obtain m
    where "first_maximal (\<lambda>x. length (get_text x)) (select soup selector) = Some m" by blast
  with Some show ?thesis
    by (simp add: find_main_content_def first_selected_find)
qed

text \<open>The removals of \<^verbatim>\<open>extract_structured_content\<close>, one selector after the other, take
  out the same nodes as one pass: no removal changes the name or the attributes of a
  node that stays.\<close>

lemma remove_nodes_matches: "matches_selector selector (remove_nodes P n) = matches_selector selector n"
  by (cases n; cases selector) (simp_all add: matches_selector_def class_tokens_def)

lemma remove_nodes_twice:
  assumes "\<And>n. Q (remove_nodes P n) = Q n"
  shows "remove_nodes Q (remove_nodes P t) = remove_nodes (\<lambda>n. P n \<or> Q n) t"
proof (induction t)
  case (Tag name as cs)
  have "filter (\<lambda>c. \<not> Q c) (map (remove_nodes P) (filter (\<lambda>c. \<not> P c) cs))
      = map (remove_nodes P) (filter (\<lambda>c. \<not> (P c \<or> Q c)) cs)"
    by (simp add: filter_map comp_def assms conj_commute)
  moreover have "map (remove_nodes Q) (map (remove_nodes P) (filter (\<lambda>c. \<not> (P c \<or> Q c)) cs))
      = map (remove_nodes (\<lambda>n. P n \<or> Q n)) (filter (\<lambda>c. \<not> (P c \<or> Q c)) cs)"
    using Tag by simp
  ultimately show ?case
    by simp
next
  case (Text s)
  show ?case by simp
qed

lemma remove_elements_after:
  "remove_elements (remove_nodes P soup) selectors
     = remove_nodes (\<lambda>n. P n \<or> list_ex (\<lambda>selector. matches_selector selector n) selectors) soup"
proof (induction selectors arbitrary: P)
  case Nil
  show ?case by (simp add: remove_elements_def)
next
  case (Cons a selectors)
  have "remove_elements (remove_nodes P soup) (a # selectors)
      = remove_elements (remove_nodes (matches_selector a) (remove_nodes P soup)) selectors"
    by (simp add: remove_elements_def)
  also have "\<dots> = remove_elements (remove_nodes (\<lambda>n. P n \<or> matches_selector a n) soup) selectors"
    by (simp only: remove_nodes_twice [of "matches_selector a" P, OF remove_nodes_matches])
  also have "\<dots> = remove_nodes (\<lambda>n. (P n \<or> matches_selector a n)
      \<or> list_ex (\<lambda>selector. matches_selector selector n) selectors) soup"
    by (rule Cons.IH)
  finally show ?case
    by (simp add: disj_assoc)
qed

lemma strip_boilerplate_one_pass:
  "strip_boilerplate s soup =
     remove_nodes
       (\<lambda>n. named [''script'', ''style'', ''meta'', ''noscript'', ''svg'', ''iframe''] n
            \<or> list_ex (\<lambda>selector. matches_selector selector n) (nav_selectors s @ footer_selectors s))
       soup"
  unfolding strip_boilerplate_def remove_elements_after
  by (simp add: disj_assoc)

text \<open>No step of the crawl changes the selector lists that \<^verbatim>\<open>__init__\<close> set.\<close>

lemma download_document_selectors:
  "download_document w s fs url = (s', fs', r)
     \<Longrightarrow> nav_selectors s' = nav_selectors s \<and> footer_selectors s' = footer_selectors s"
  by (auto simp: download_document_def Let_def split: option.splits if_splits)

lemma save_structured_content_selectors:
  "save_structured_content w s fs sc = (s', fs')
     \<Longrightarrow> nav_selectors s' = nav_selectors s \<and> footer_selectors s' = footer_selectors s"
  by (auto simp: save_structured_content_def Let_def)

lemma add_link_selectors:
  "nav_selectors (add_link url s href) = nav_selectors s
   \<and> footer_selectors (add_link url s href) = footer_selectors s"
  by (simp add: add_link_def Let_def)

lemma step_selectors:
  assumes "scrape_step w choice (pt, s, fs) = Some (pt', s', fs')"
  shows "nav_selectors s' = nav_selectors s \<and> footer_selectors s' = footer_selectors s"
proof (cases pt)
  case (Extracting url html hs)
  with assms show ?thesis
    by (cases hs)
       (auto simp: add_link_selectors split: sum.splits option.splits prod.splits
         dest!: save_structured_content_selectors)
qed (use assms in \<open>auto split: if_splits option.splits prod.splits
      dest!: download_document_selectors\<close>)

lemma reaches_selectors:
  "reaches w c0 c \<Longrightarrow>
     nav_selectors (fst (snd c)) = nav_selectors (fst (snd c0))
     \<and> footer_selectors (fst (snd c)) = footer_selectors (fst (snd c0))"
proof (induction rule: reaches.induct)
  case start
  show ?case by simp
next
  case (step c choice c')
  from step.hyps(2) step_selectors [of w choice "fst c" "fst (snd c)" "snd (snd c)" "fst c'" "fst (snd c')" "snd (snd c')"]
  have "nav_selectors (fst (snd c')) = nav_selectors (fst (snd c))
     \<and> footer_selectors (fst (snd c')) = footer_selectors (fst (snd c))"
    by simp
  with step.IH show ?case by simp
qed

lemma strip_boilerplate_reached:
  assumes "reaches w (Loop_head, init_scraper start output docs, files) (pt, s, fs)"
  shows "strip_boilerplate s soup = remove_nodes boilerplate soup"
proof -
  from reaches_selectors [OF assms]
  have "nav_selectors s = nav_selectors (init_scraper [] [] [])"
    "footer_selectors s = footer_selectors (init_scraper [] [] [])"
    by (simp_all add: init_scraper_def)
  then have "(\<lambda>n. named [''script'', ''style'', ''meta'', ''noscript'', ''svg'', ''iframe''] n
            \<or> list_ex (\<lambda>selector. matches_selector selector n) (nav_selectors s @ footer_selectors s))
        = boilerplate"
    by (intro ext) (simp only: boilerplate_def)
  then show ?thesis
    by (simp only: strip_boilerplate_one_pass)
qed

lemma map_filter_conv:
  "map f (filter P xs) = List.map_filter (\<lambda>x. if P x then Some (f x) else None) xs"
  by (induction xs) (simp_all add: List.map_filter_simps)

lemma collect_blocks_document_order: "collect_blocks m = blocks_in_document_order m"
proof -
  have "(\<lambda>n. if named [''p'', ''li'', ''blockquote'', ''pre''] n \<and> 10 < length (get_text n)
            then Some (tag_name n, get_text n) else None)
      = (\<lambda>n. if named [''p'', ''li'', ''blockquote'', ''pre''] n \<and> get_text n \<noteq> [] \<and> 10 < length (get_text n)
            then Some (tag_name n, get_text n) else None)"
    by (intro ext) auto
  then show ?thesis
    by (simp add: collect_blocks_def blocks_in_document_order_def find_all_def map_filter_conv)
qed

lemma collect_images_document_order: "collect_images url m = images_in_document_order url m"
proof -
  have "(\<lambda>n. if named [''img''] n
            then (case map_of (attrs n) ''src'' of
                    None \<Rightarrow> None
                  | Some src \<Rightarrow>
                      if urljoin url src = [] then None
                      else Some (urljoin url src, strip (attr_or n ''alt'' [])))
            else None)
     = (\<lambda>n. if named [''img''] n \<and> has_attr ''src'' n \<and> urljoin url (attr_or n ''src'' []) \<noteq> []
            then Some (urljoin url (attr_or n ''src'' []), strip (attr_or n ''alt'' [])) else None)"
    by (intro ext) (auto simp: has_attr_def attr_or_def named_def split: option.splits)
  then show ?thesis
    by (simp add: collect_images_def images_in_document_order_def find_all_with_def find_all_def
        map_filter_conv)
qed

lemma collect_links_document_order: "collect_links url m = links_in_document_order url m"
proof -
  have "(\<lambda>n. if named [''a''] n
            then (case map_of (attrs n) ''href'' of
                    None \<Rightarrow> None
                  | Some href \<Rightarrow>
                      if get_text n = [] \<or> urljoin url href = [] then None
                      else Some (get_text n, urljoin url href))
            else None)
     = (\<lambda>n. if named [''a''] n \<and> has_attr ''href'' n
              \<and> get_text n \<noteq> [] \<and> urljoin url (attr_or n ''href'' []) \<noteq> []
            then Some (get_text n, urljoin url (attr_or n ''href'' [])) else None)"
    by (intro ext) (auto simp: has_attr_def attr_or_def named_def split: option.splits)
  then show ?thesis
    by (simp add: collect_links_def links_in_document_order_def find_all_with_def find_all_def
        map_filter_conv)
qed

lemma extract_reached:
  assumes "reaches w (Loop_head, init_scraper start output docs, files) (pt, s, fs)"
  shows "extract_structured_content w s url html_content
     = (if html_content = [] then Inr None else extracted_page url (parse_html w html_content))"
proof -
  have m: "find_main_content (strip_boilerplate s soup) = main_content_of soup" for soup
    unfolding strip_boilerplate_reached [OF assms] main_content_of_def Let_def
    by (rule find_main_content_first_maximal)
  show ?thesis
    unfolding extract_structured_content_def extracted_page_def m
      collect_headings_sorted collect_blocks_document_order
      collect_images_document_order collect_links_document_order Let_def
    by (rule refl)
qed

text \<open>
  Claim C10. The result of the extractor is a function of the URL, the HTML text and
  the document that the parser builds from it, and of nothing else: at every point
  that a crawl can reach, whatever its start URL, folders and files, it is
  \<open>extracted_page\<close>, in which every order and every tie is fixed (the main content is the
  first in document order among the candidates with the longest text; headings are
  sorted by level and in document order within a level; content blocks, images and
  links are in document order; \<^verbatim>\<open>plain_text\<close> is built from these). So two runs on the
  same URL and the same HTML text give the same result, as long as the HTML parser is
  the same function in both, and the word and character counts written with the
  record agree too.
\<close>

theorem extraction_deterministic:
  assumes "reaches w1 (Loop_head, init_scraper start1 output1 docs1, files1) (pt1, s1, fs1)"
    and "reaches w2 (Loop_head, init_scraper start2 output2 docs2, files2) (pt2, s2, fs2)"
    and "parse_html w1 = parse_html w2"
  shows "extract_structured_content w1 s1 url html_content
       = (if html_content = [] then Inr None else extracted_page url (parse_html w1 html_content))
     \<and> extract_structured_content w2 s2 url html_content
       = extract_structured_content w1 s1 url html_content
     \<and> page_record (page_artifact w1 s1 sc) = page_record (page_artifact w2 s2 sc)"
  unfolding extract_reached [OF assms(1)] extract_reached [OF assms(2)] assms(3)
  by (simp add: page_artifact_def)

text \<open>The theorem on the page with two equally long articles, extracted by a fresh
  scraper and by a scraper of another crawl that has visited its start URL: both give
  the record of the first article (without its menu), 4 words, 23 characters.\<close>

theorem extraction_deterministic_witness:
  "extract_structured_content tie_world (init_scraper ''https://example.com/tie'' ''scraped_data'' ''downloaded_docs'')
      ''https://example.com/tie'' tie_html
     = Inr (Some tie_page)
   \<and> extract_structured_content tie_world
      ((init_scraper ''https://example.com/blog'' ''pages'' ''files'')
         \<lparr>found_urls := {}, visited_urls := {''https://example.com/blog''}\<rparr>)
      ''https://example.com/tie'' tie_html
     = Inr (Some tie_page)
   \<and> main_content_of tie_soup = Some (Tag ''article'' [] [Tag ''p'' [] [Text ''first article text'']])
   \<and> page_record (page_artifact tie_world
        ((init_scraper ''https://example.com/blog'' ''pages'' ''files'')
           \<lparr>found_urls := {}, visited_urls := {''https://example.com/blog''}\<rparr>) tie_page)
     = Some (tie_page, 4, 23)"
proof -
  let ?t = "''https://example.com/tie''"
  let ?u = "''https://example.com/blog''"
  let ?s1 = "init_scraper ?t ''scraped_data'' ''downloaded_docs''"
  let ?s2 = "(init_scraper ?u ''pages'' ''files'')\<lparr>found_urls := {}, visited_urls := {?u}\<rparr>"
  have run: "scrape_steps tie_world [?u, ?u] (Loop_head, init_scraper ?u ''pages'' ''files'', [])
      = Some (Marked ?u, ?s2, [])"
    by code_simp
  have r2: "reaches tie_world (Loop_head, init_scraper ?u ''pages'' ''files'', []) (Marked ?u, ?s2, [])"
    by (rule reaches_steps [OF reaches.start run])
  have r1: "reaches tie_world (Loop_head, ?s1, []) (Loop_head, ?s1, [])"
    by (rule reaches.start)
  have h: "tie_html \<noteq> []"
    by code_simp
  have e: "extracted_page ?t (parse_html tie_world tie_html) = Inr (Some tie_page)"
    by code_simp
  have m: "main_content_of tie_soup = Some (Tag ''article'' [] [Tag ''p'' [] [Text ''first article text'']])"
    by code_simp
  have p: "page_record (page_artifact tie_world ?s1 tie_page) = Some (tie_page, 4, 23)"
    by code_simp
  from extraction_deterministic [OF r1 r2 refl, of ?t tie_html tie_page] h e m p
  show ?thesis
    by simp
qed

end
